theory Spec2Isabelle
  imports Main
begin

section \<open>Terms\<close>

text \<open>
  Modelled from the spec: the term type of \<^verbatim>\<open>scheme_reader\<close> (\<^verbatim>\<open>Pair\<close>, \<^verbatim>\<open>nil\<close>) and the
  predicates of \<^verbatim>\<open>scheme_primitives\<close> are imported by both modules but are not part of the
  sources at hand. The spec's data model gives the tagged variant: an atom (boolean, number,
  text, symbol), a pair with fields \<^verbatim>\<open>first\<close> and \<^verbatim>\<open>second\<close>, or the empty list.
\<close>

datatype sexp =
    Sym string
  | Num int
  | Bool bool
  | Str string
  | nil
  | Pair (first: sexp) (second: sexp)

text \<open>
  Modelled from the spec: \<^verbatim>\<open>scheme_atomp\<close> of \<^verbatim>\<open>scheme_primitives\<close>; among terms, everything
  but a pair. Where the code asks \<^verbatim>\<open>scheme_symbolp\<close> or \<^verbatim>\<open>scheme_pairp\<close> of a term, the
  model matches on the constructor.
\<close>

fun scheme_atomp :: "sexp \<Rightarrow> bool" where
  "scheme_atomp (Pair a b) = False"
| "scheme_atomp _ = True"

text \<open>\<^verbatim>\<open>isvar\<close>: a symbol whose name starts with a question mark.\<close>

fun startswith_qmark :: "string \<Rightarrow> bool" where
  "startswith_qmark [] = False"
| "startswith_qmark (c # cs) = (c = CHR ''?'')"

fun isvar :: "sexp \<Rightarrow> bool" where
  "isvar (Sym s) = startswith_qmark s"
| "isvar _ = False"

section \<open>Frames of the logic layer\<close>

text \<open>
  \<^verbatim>\<open>Frame\<close>: a dictionary of bindings and a parent frame (or none). In \<^verbatim>\<open>logic.py\<close> a frame
  is written to only by \<^verbatim>\<open>unify\<close>, on the frame \<^verbatim>\<open>query\<close> has just created, before any other
  frame refers to it; so a frame is modelled here as a value holding its whole parent chain.
\<close>

datatype error =
    SchemeError string
  | AttributeError string
  | TypeError string
  | IndexError string
  | RecursionError
  | Exception string

datatype frame = Frame (bindings: "string \<rightharpoonup> sexp") (parent: "frame option")

text \<open>\<^verbatim>\<open>Frame.lookup\<close>: this frame's bindings, then the parent chain, else an error.\<close>

fun Frame_lookup :: "frame \<Rightarrow> string \<Rightarrow> error + sexp" where
  "Frame_lookup (Frame b p) symbol =
     (case b symbol of
        Some v \<Rightarrow> Inr v
      | None \<Rightarrow>
          (case p of
             Some up \<Rightarrow> Frame_lookup up symbol
           | None \<Rightarrow> Inl (SchemeError (''unknown identifier: '' @ symbol))))"

text \<open>
  \<^verbatim>\<open>Frame.define\<close>: \<^verbatim>\<open>self.bindings[sym] = val\<close>. The logic layer calls it with a logical
  variable only; the keys of a frame are symbol names.
\<close>

fun Frame_define :: "frame \<Rightarrow> sexp \<Rightarrow> sexp \<Rightarrow> frame" where
  "Frame_define (Frame b p) (Sym s) val = Frame (b(s \<mapsto> val)) p"
| "Frame_define fr _ val = fr"

section \<open>Resolution of symbols and unification\<close>

text \<open>
  \<^verbatim>\<open>lookup(sym, env)\<close>: look the symbol up repeatedly until the frame's lookup raises; the
  \<^verbatim>\<open>except\<close> clause then returns the symbol reached. A term that is not a symbol is the key
  of no binding, so the frame's lookup raises at once. This definition follows the recursion
  with a stack that is never exhausted: on a cyclic chain of bindings the recursion has no end
  of its own, and the result is \<open>None\<close>. The real call ends there as well, by the
  \<^verbatim>\<open>RecursionError\<close> of the host, which the bare \<^verbatim>\<open>except\<close> clause catches too;
  \<open>lookup_bounded\<close> below is the same function with the depth of the stack made explicit.
  \<^verbatim>\<open>unify\<close> binds a variable only to a term it has resolved and found different, so it
  makes no cyclic chain itself.
\<close>

partial_function (option) lookup :: "sexp \<Rightarrow> frame \<Rightarrow> sexp option" where
  "lookup symb env =
     (case symb of
        Sym s \<Rightarrow>
          (case Frame_lookup env s of
             Inr v \<Rightarrow> lookup v env
           | Inl err \<Rightarrow> Some symb)
      | _ \<Rightarrow> Some symb)"

text \<open>
  \<^verbatim>\<open>unify(e, f, env)\<close>: the frame is extended in place, also when the result is \<^verbatim>\<open>False\<close>;
  the model returns the frame with the result.
\<close>

partial_function (option) unify :: "sexp \<Rightarrow> sexp \<Rightarrow> frame \<Rightarrow> (bool \<times> frame) option" where
  "unify e f env =
     Option.bind (lookup e env) (\<lambda>e'.
     Option.bind (lookup f env) (\<lambda>f'.
       if e' = f' then Some (True, env)
       else if isvar e' then Some (True, Frame_define env e' f')
       else if isvar f' then Some (True, Frame_define env f' e')
       else if scheme_atomp e' \<or> scheme_atomp f' then Some (False, env)
       else
         Option.bind (unify (first e') (first f') env) (\<lambda>(ok, env1).
           if ok then unify (second e') (second f') env1 else Some (False, env1))))"

text \<open>\<^verbatim>\<open>bind(expr, env)\<close>: the term with every variable replaced by what it resolves to.\<close>

partial_function (option) bind :: "sexp \<Rightarrow> frame \<Rightarrow> sexp option" where
  "bind expr env =
     (case expr of
        Sym s \<Rightarrow>
          Option.bind (lookup expr env) (\<lambda>resolved.
            if expr \<noteq> resolved then bind resolved env else Some expr)
      | Pair a b \<Rightarrow>
          Option.bind (bind a env) (\<lambda>a'.
          Option.bind (bind b env) (\<lambda>b'. Some (Pair a' b')))
      | _ \<Rightarrow> Some expr)"

subsection \<open>The depth of the host's stack\<close>

text \<open>
  The interpreter raises \<^verbatim>\<open>RecursionError\<close> at a call when its stack is full. In the
  definitions below the first argument is the number of calls that can still be nested inside
  the body of the function; a call made when that number is \<open>0\<close> raises at the place of the
  call. Membership in a dictionary of strings, the comparison of two terms, \<^verbatim>\<open>str\<close> and
  \<^verbatim>\<open>startswith\<close> are taken to need no room on the stack.

  \<^verbatim>\<open>Frame.lookup\<close>: the call on the parent frame is the only nested call.
\<close>

fun Frame_lookup_bounded :: "nat \<Rightarrow> frame \<Rightarrow> string \<Rightarrow> error + sexp" where
  "Frame_lookup_bounded n (Frame b p) symbol =
     (case b symbol of
        Some v \<Rightarrow> Inr v
      | None \<Rightarrow>
          (case p of
             Some up \<Rightarrow>
               (case n of
                  0 \<Rightarrow> Inl RecursionError
                | Suc m \<Rightarrow> Frame_lookup_bounded m up symbol)
           | None \<Rightarrow> Inl (SchemeError (''unknown identifier: '' @ symbol))))"

text \<open>
  \<^verbatim>\<open>lookup(sym, env)\<close>: both nested calls, of \<^verbatim>\<open>env.lookup\<close> and of \<^verbatim>\<open>lookup\<close> itself, are
  inside the \<^verbatim>\<open>try\<close>, and the \<^verbatim>\<open>except\<close> clause names no exception: whatever is raised,
  the \<^verbatim>\<open>RecursionError\<close> of a full stack included, the symbol at hand is returned. So the
  body always returns a term.
\<close>

primrec lookup_bounded :: "nat \<Rightarrow> sexp \<Rightarrow> frame \<Rightarrow> sexp" where
  "lookup_bounded 0 symb env = symb"
| "lookup_bounded (Suc m) symb env =
     (case symb of
        Sym s \<Rightarrow>
          (case Frame_lookup_bounded m env s of
             Inr v \<Rightarrow> lookup_bounded m v env
           | Inl err \<Rightarrow> symb)
      | _ \<Rightarrow> symb)"

text \<open>
  \<^verbatim>\<open>unify(e, f, env)\<close>: nothing is caught here, so a \<^verbatim>\<open>RecursionError\<close> leaves the function,
  and the frame stays as it was extended so far. The calls of \<^verbatim>\<open>lookup\<close> need room for
  one call; \<^verbatim>\<open>isvar\<close> calls \<^verbatim>\<open>scheme_symbolp\<close> and needs room for two; once it has returned,
  \<^verbatim>\<open>env.define\<close> and \<^verbatim>\<open>scheme_atomp\<close> have the room they need.
\<close>

primrec unify_bounded :: "nat \<Rightarrow> sexp \<Rightarrow> sexp \<Rightarrow> frame \<Rightarrow> (error + bool) \<times> frame" where
  "unify_bounded 0 e f env = (Inl RecursionError, env)"
| "unify_bounded (Suc m) e f env =
     (let e' = lookup_bounded m e env; f' = lookup_bounded m f env in
      if e' = f' then (Inr True, env)
      else if m = 0 then (Inl RecursionError, env)
      else if isvar e' then (Inr True, Frame_define env e' f')
      else if isvar f' then (Inr True, Frame_define env f' e')
      else if scheme_atomp e' \<or> scheme_atomp f' then (Inr False, env)
      else
        (case unify_bounded m (first e') (first f') env of
           (Inr True, env1) \<Rightarrow> unify_bounded m (second e') (second f') env1
         | r \<Rightarrow> r))"

section \<open>Support functions\<close>

text \<open>\<^verbatim>\<open>get_vars\<close>: the logical variables of a term, each once, in the order first seen.\<close>

fun get_vars :: "sexp \<Rightarrow> sexp list" where
  "get_vars (Sym s) = (if isvar (Sym s) then [Sym s] else [])"
| "get_vars (Pair a b) =
     foldl (\<lambda>vs v. if v \<in> set vs then vs else vs @ [v]) (get_vars a) (get_vars b)"
| "get_vars _ = []"

text \<open>\<^verbatim>\<open>str(n)\<close> of a natural number: its decimal digits.\<close>

definition digit_char :: "nat \<Rightarrow> char" where
  "digit_char d =
     (if d = 0 then CHR ''0'' else if d = 1 then CHR ''1'' else if d = 2 then CHR ''2''
      else if d = 3 then CHR ''3'' else if d = 4 then CHR ''4'' else if d = 5 then CHR ''5''
      else if d = 6 then CHR ''6'' else if d = 7 then CHR ''7'' else if d = 8 then CHR ''8''
      else CHR ''9'')"

fun str :: "nat \<Rightarrow> string" where
  "str n = (if n < 10 then [digit_char n] else str (n div 10) @ [digit_char (n mod 10)])"

text \<open>
  \<^verbatim>\<open>get_unique_id\<close>: the global counter \<^verbatim>\<open>IDENTIFIER\<close> (initially 0, only ever incremented,
  hence a natural number) is passed in and returned: the identifier and the new counter.
\<close>

definition get_unique_id :: "nat \<Rightarrow> nat \<times> nat" where
  "get_unique_id IDENTIFIER = (IDENTIFIER + 1, IDENTIFIER + 1)"

text \<open>\<^verbatim>\<open>label(expr, n)\<close>: every variable gets the suffix \<^verbatim>\<open>_n\<close>.\<close>

fun label :: "sexp \<Rightarrow> nat \<Rightarrow> sexp" where
  "label (Sym s) n = (if isvar (Sym s) then Sym (s @ ''_'' @ str n) else Sym s)"
| "label (Pair a b) n = Pair (label a n) (label b n)"
| "label expr n = expr"

section \<open>Inference\<close>

text \<open>
  \<^verbatim>\<open>query\<close> is a generator. Its consumer is modelled as the function \<open>yield\<close>, called
  with each frame the generator yields and with the counter at that moment, so that the
  counter is threaded in the order in which the nested generators really run. A run is what
  the whole enumeration leaves behind: the values produced, the counter, and how it ended
  (to the end, by an exception, or in a call of \<^verbatim>\<open>unify\<close> or \<^verbatim>\<open>bind\<close> on a chain of
  bindings that has no end).
\<close>

datatype stop = Finished | Raised error | Diverged

type_synonym 'r run = "'r list \<times> nat \<times> stop"

definition then_run :: "'r run \<Rightarrow> (nat \<Rightarrow> 'r run) \<Rightarrow> 'r run" where
  "then_run r g =
     (case r of
        (ys, ident, Finished) \<Rightarrow> (case g ident of (ys', ident', st) \<Rightarrow> (ys @ ys', ident', st))
      | _ \<Rightarrow> r)"

definition DEPTH_LIMIT :: nat where
  "DEPTH_LIMIT = 20"

text \<open>
  \<^verbatim>\<open>query(clauses, env, depth)\<close> over the fact list \<open>facts\<close>. Reading \<^verbatim>\<open>.first\<close> of a term
  that is not a pair raises \<^verbatim>\<open>AttributeError\<close>.
\<close>

function query ::
  "sexp list \<Rightarrow> sexp \<Rightarrow> frame \<Rightarrow> nat \<Rightarrow> (frame \<Rightarrow> nat \<Rightarrow> 'r run) \<Rightarrow> nat \<Rightarrow> 'r run" where
  "query facts clauses env depth yield IDENTIFIER =
     (if clauses = nil then yield env IDENTIFIER
      else if depth \<le> DEPTH_LIMIT then
        foldl (\<lambda>acc fact0. then_run acc (\<lambda>ident.
            let (n, ident1) = get_unique_id ident;
                fact = label fact0 n;
                env_head = Frame Map.empty (Some env)
            in case (fact, clauses) of
                 (Pair fact_first fact_second, Pair clauses_first clauses_second) \<Rightarrow>
                   (case unify fact_first clauses_first env_head of
                      None \<Rightarrow> ([], ident1, Diverged)
                    | Some (ok, env_head') \<Rightarrow>
                        if ok then
                          query facts fact_second env_head' (depth + 1)
                            (\<lambda>env_rule ident2.
                               query facts clauses_second env_rule (depth + 1) yield ident2)
                            ident1
                        else ([], ident1, Finished))
               | _ \<Rightarrow> ([], ident1, Raised (AttributeError ''first''))))
          ([], IDENTIFIER, Finished) facts
      else ([], IDENTIFIER, Finished))"
  by pat_completeness auto
termination
  by (relation "measure (\<lambda>(facts, clauses, env, depth, yield, ident). DEPTH_LIMIT + 1 - depth)")
     auto

declare query.simps [simp del]

text \<open>\<^verbatim>\<open>do_query(clauses)\<close>: for every frame found, the binding of each variable of the query.\<close>

fun bind_all :: "sexp list \<Rightarrow> frame \<Rightarrow> (sexp \<times> sexp) list option" where
  "bind_all [] env = Some []"
| "bind_all (v # vs) env =
     Option.bind (bind v env) (\<lambda>b.
     Option.bind (bind_all vs env) (\<lambda>bs. Some ((v, b) # bs)))"

definition do_query :: "sexp list \<Rightarrow> sexp \<Rightarrow> nat \<Rightarrow> ((sexp \<times> sexp) list) run" where
  "do_query facts clauses IDENTIFIER =
     query facts clauses (Frame Map.empty None) 0
       (\<lambda>env ident.
          case bind_all (get_vars clauses) env of
            Some result \<Rightarrow> ([result], ident, Finished)
          | None \<Rightarrow> ([], ident, Diverged))
       IDENTIFIER"

section \<open>Values and frames of the evaluator\<close>

text \<open>
  The evaluator works on the reader's terms and on the objects it makes itself: procedures,
  and Python's \<^verbatim>\<open>None\<close>, which \<^verbatim>\<open>do_define_form\<close> and \<^verbatim>\<open>do_cond_form\<close> return. Modelled from the
  spec: the term constructors, as for \<open>sexp\<close>, and \<^verbatim>\<open>PrimitiveProcedure\<close>, of which the source
  reads the fields \<^verbatim>\<open>fn\<close> and \<^verbatim>\<open>use_env\<close>; the native function is kept as a name.

  A frame is mutable and shared: a closure keeps the frame it was made in, and \<^verbatim>\<open>define\<close>
  writes into it later. So the dictionaries of the frames live in a store, a list indexed by
  address, and a frame is referred to by the address of its dictionary and by its parent,
  which is fixed at creation.
\<close>

datatype frame_ref = FrameRef (dict_of: nat) (parent_of: "frame_ref option")

datatype val =
    VSym string
  | VNum int
  | VBool bool
  | VStr string
  | VNil
  | VPair val val
  | PrimitiveProcedure string bool
  | LambdaProcedure val val frame_ref
  | MuProcedure val val
  | PyNone

text \<open>
  A computation takes the store and gives \<open>None\<close> if it has not returned, or else a value or
  an exception together with the store it leaves.
\<close>

type_synonym store = "(val \<rightharpoonup> val) list"

type_synonym 'a comp = "store \<Rightarrow> ((error + 'a) \<times> store) option"

definition ret :: "'a \<Rightarrow> 'a comp" where
  "ret v s = Some (Inr v, s)"

definition raise :: "error \<Rightarrow> 'a comp" where
  "raise e s = Some (Inl e, s)"

definition lift :: "error + 'a \<Rightarrow> 'a comp" where
  "lift r s = Some (r, s)"

definition andthen :: "'a comp \<Rightarrow> ('a \<Rightarrow> 'b comp) \<Rightarrow> 'b comp" where
  "andthen m k s =
     (case m s of
        None \<Rightarrow> None
      | Some (Inl e, s') \<Rightarrow> Some (Inl e, s')
      | Some (Inr v, s') \<Rightarrow> k v s')"

definition attempt :: "error + 'a \<Rightarrow> ('a \<Rightarrow> error + 'b) \<Rightarrow> error + 'b" where
  "attempt r k = (case r of Inl e \<Rightarrow> Inl e | Inr v \<Rightarrow> k v)"

text \<open>
  The special forms call the function that the global name \<^verbatim>\<open>scheme_eval\<close> is bound to; they
  take it as the parameter \<open>ev\<close>. Modelled from the spec: the primitives are native functions
  that this module does not define. The table \<open>N\<close> of primitives receives that evaluator
  (the primitives \<^verbatim>\<open>eval\<close>, \<^verbatim>\<open>apply\<close> and \<^verbatim>\<open>load\<close> call back into it), the name of the
  primitive, the Python list of arguments and the environment when \<^verbatim>\<open>use_env\<close> is set.
\<close>

type_synonym evaluator = "val \<Rightarrow> frame_ref \<Rightarrow> val comp"

type_synonym natives = "evaluator \<Rightarrow> string \<Rightarrow> val list \<Rightarrow> frame_ref option \<Rightarrow> val comp"

subsection \<open>Predicates and list operations\<close>

text \<open>
  Modelled from the spec: the predicates of \<^verbatim>\<open>scheme_primitives\<close> and the protocol of \<^verbatim>\<open>Pair\<close>
  and \<^verbatim>\<open>nil\<close> in \<^verbatim>\<open>scheme_reader\<close>: the attributes \<^verbatim>\<open>first\<close> and \<^verbatim>\<open>second\<close>, which only a
  pair has; \<^verbatim>\<open>len\<close>, defined on proper lists; indexing from 0; and the truth value Python gives
  an object in \<^verbatim>\<open>if test:\<close> (false for \<^verbatim>\<open>False\<close>, \<^verbatim>\<open>None\<close>, 0 and objects of length 0). A symbol
  is a Python string, which has a length and can be indexed. A procedure or \<^verbatim>\<open>None\<close> is not an
  atom.
\<close>

fun scheme_symbolp :: "val \<Rightarrow> bool" where
  "scheme_symbolp (VSym s) = True"
| "scheme_symbolp _ = False"

fun scheme_pairp :: "val \<Rightarrow> bool" where
  "scheme_pairp (VPair a b) = True"
| "scheme_pairp _ = False"

fun scheme_atomp_val :: "val \<Rightarrow> bool" where
  "scheme_atomp_val (VSym s) = True"
| "scheme_atomp_val (VNum n) = True"
| "scheme_atomp_val (VBool b) = True"
| "scheme_atomp_val (VStr s) = True"
| "scheme_atomp_val VNil = True"
| "scheme_atomp_val _ = False"

fun scheme_listp :: "val \<Rightarrow> bool" where
  "scheme_listp VNil = True"
| "scheme_listp (VPair a b) = scheme_listp b"
| "scheme_listp _ = False"

definition scheme_true :: "val \<Rightarrow> bool" where
  "scheme_true v = (v \<noteq> VBool False)"

definition scheme_false :: "val \<Rightarrow> bool" where
  "scheme_false v = (v = VBool False)"

fun attr_first :: "val \<Rightarrow> error + val" where
  "attr_first (VPair a b) = Inr a"
| "attr_first _ = Inl (AttributeError ''first'')"

fun attr_second :: "val \<Rightarrow> error + val" where
  "attr_second (VPair a b) = Inr b"
| "attr_second _ = Inl (AttributeError ''second'')"

fun py_len :: "val \<Rightarrow> error + nat" where
  "py_len VNil = Inr 0"
| "py_len (VPair a VNil) = Inr 1"
| "py_len (VPair a (VPair b c)) = attempt (py_len (VPair b c)) (\<lambda>n. Inr (Suc n))"
| "py_len (VPair a _) = Inl (TypeError ''length attempted on improper list'')"
| "py_len (VSym s) = Inr (length s)"
| "py_len _ = Inl (TypeError ''object has no len()'')"

fun py_getitem :: "val \<Rightarrow> nat \<Rightarrow> error + val" where
  "py_getitem (VPair a b) 0 = Inr a"
| "py_getitem (VPair a VNil) (Suc k) = Inl (IndexError ''list index out of bounds'')"
| "py_getitem (VPair a (VPair b c)) (Suc k) = py_getitem (VPair b c) k"
| "py_getitem (VPair a _) (Suc k) = Inl (TypeError ''ill-formed list'')"
| "py_getitem VNil k = Inl (IndexError ''list index out of bounds'')"
| "py_getitem (VSym s) k =
     (if k < length s then Inr (VSym [s ! k]) else Inl (IndexError ''string index out of range''))"
| "py_getitem _ k = Inl (TypeError ''object is not subscriptable'')"

fun py_truthy :: "val \<Rightarrow> error + bool" where
  "py_truthy (VBool b) = Inr b"
| "py_truthy (VNum n) = Inr (n \<noteq> 0)"
| "py_truthy PyNone = Inr False"
| "py_truthy VNil = Inr False"
| "py_truthy (VPair a b) = attempt (py_len (VPair a b)) (\<lambda>n. Inr (n \<noteq> 0))"
| "py_truthy (VSym s) = Inr (s \<noteq> [])"
| "py_truthy _ = Inr True"

subsection \<open>Frames\<close>

text \<open>
  \<^verbatim>\<open>Frame(parent)\<close> puts an empty dictionary at the end of the store. Every reference is made
  this way, so its address lies within the store; \<open>dict_at\<close> reads it. \<^verbatim>\<open>Frame.lookup\<close> reads
  this frame's dictionary, then the parent chain, and raises \<^verbatim>\<open>SchemeError\<close> at the root (the
  symbol's name, which the message ends with, is left out). \<open>set_binding\<close> is the assignment
  \<^verbatim>\<open>frame.bindings[target] = value\<close>.
\<close>

definition dict_at :: "store \<Rightarrow> nat \<Rightarrow> (val \<rightharpoonup> val)" where
  "dict_at s a = (if a < length s then s ! a else Map.empty)"

definition new_Frame :: "frame_ref option \<Rightarrow> frame_ref comp" where
  "new_Frame up s = Some (Inr (FrameRef (length s) up), s @ [Map.empty])"

fun lookup_in :: "store \<Rightarrow> frame_ref \<Rightarrow> val \<Rightarrow> error + val" where
  "lookup_in s (FrameRef a p) symbol =
     (case dict_at s a symbol of
        Some v \<Rightarrow> Inr v
      | None \<Rightarrow>
          (case p of
             Some up \<Rightarrow> lookup_in s up symbol
           | None \<Rightarrow> Inl (SchemeError ''unknown identifier'')))"

definition Frame_lookup_st :: "frame_ref \<Rightarrow> val \<Rightarrow> val comp" where
  "Frame_lookup_st env symbol s = Some (lookup_in s env symbol, s)"

definition set_binding :: "frame_ref \<Rightarrow> val \<Rightarrow> val \<Rightarrow> unit comp" where
  "set_binding frame target value s =
     Some (Inr (), s[dict_of frame := (dict_at s (dict_of frame))(target \<mapsto> value)])"

text \<open>
  \<^verbatim>\<open>make_call_frame\<close>: a new frame, child of \<open>self\<close>; the loop runs while the formals are not
  exhausted and reads \<^verbatim>\<open>.first\<close> of the formals and of the values at each turn.
\<close>

fun bind_formals :: "frame_ref \<Rightarrow> val \<Rightarrow> val \<Rightarrow> unit comp" where
  "bind_formals frame formals vals =
     (case py_len formals of
        Inl e \<Rightarrow> raise e
      | Inr n \<Rightarrow>
          if n \<noteq> 0 then
            (case formals of
               VPair target formals' \<Rightarrow>
                 (case vals of
                    VPair value vals' \<Rightarrow>
                      andthen (set_binding frame target value)
                        (\<lambda>_. bind_formals frame formals' vals')
                  | _ \<Rightarrow> raise (AttributeError ''first''))
             | _ \<Rightarrow> raise (AttributeError ''first''))
          else ret ())"

definition make_call_frame :: "frame_ref \<Rightarrow> val \<Rightarrow> val \<Rightarrow> frame_ref comp" where
  "make_call_frame self formals vals =
     andthen (new_Frame (Some self)) (\<lambda>frame.
     andthen (bind_formals frame formals vals) (\<lambda>_.
     ret frame))"

subsection \<open>Checks of the structure of forms\<close>

text \<open>\<^verbatim>\<open>check_form(expr, min, max)\<close> and \<^verbatim>\<open>check_formals(formals)\<close>, the latter with its list of
  the symbols seen so far.\<close>

definition check_form :: "val \<Rightarrow> nat \<Rightarrow> nat option \<Rightarrow> error + unit" where
  "check_form expr mn mx =
     (if \<not> scheme_listp expr then Inl (Exception ''badly formed expression'')
      else
        attempt (py_len expr) (\<lambda>len.
          if len < mn then Inl (SchemeError ''too few operands in form'')
          else
            (case mx of
               Some m \<Rightarrow>
                 if len > m then Inl (SchemeError ''too many operands in form'') else Inr ()
             | None \<Rightarrow> Inr ())))"

fun check_formals_from :: "val list \<Rightarrow> val \<Rightarrow> error + unit" where
  "check_formals_from seen VNil = Inr ()"
| "check_formals_from seen (VPair x formals) =
     (if x \<in> set seen then Inl (SchemeError ''bad formed formals'')
      else if \<not> scheme_symbolp x then Inl (SchemeError ''bad formed formals'')
      else check_formals_from (seen @ [x]) formals)"
| "check_formals_from seen _ = Inl (SchemeError ''bad formed formals'')"

definition check_formals :: "val \<Rightarrow> error + unit" where
  "check_formals formals = check_formals_from [] formals"

subsection \<open>Special forms\<close>

text \<open>
  \<^verbatim>\<open>do_lambda_form\<close>, \<^verbatim>\<open>do_mu_form\<close>, \<^verbatim>\<open>do_define_form\<close> (which returns \<^verbatim>\<open>None\<close>) and
  \<^verbatim>\<open>do_quote_form\<close>.
\<close>

definition do_lambda_form :: "val \<Rightarrow> frame_ref \<Rightarrow> error + val" where
  "do_lambda_form vals env =
     attempt (check_form vals 2 None) (\<lambda>_.
     attempt (py_getitem vals 0) (\<lambda>formals.
     attempt (check_formals formals) (\<lambda>_.
     attempt (attr_second vals) (\<lambda>body.
     attempt (py_len body) (\<lambda>n.
       if n > 1 then Inr (LambdaProcedure formals (VPair (VSym ''begin'') body) env)
       else attempt (py_getitem body 0) (\<lambda>b. Inr (LambdaProcedure formals b env)))))))"

definition do_mu_form :: "val \<Rightarrow> error + val" where
  "do_mu_form vals =
     attempt (check_form vals 2 None) (\<lambda>_.
     attempt (py_getitem vals 0) (\<lambda>formals.
     attempt (check_formals formals) (\<lambda>_.
     attempt (attr_second vals) (\<lambda>body.
     attempt (py_len body) (\<lambda>n.
       if n > 1 then Inr (MuProcedure formals (VPair (VSym ''begin'') body))
       else attempt (py_getitem body 0) (\<lambda>b. Inr (MuProcedure formals b)))))))"

definition do_define_form :: "evaluator \<Rightarrow> val \<Rightarrow> frame_ref \<Rightarrow> val comp" where
  "do_define_form ev vals env =
     andthen (lift (check_form vals 2 None)) (\<lambda>_.
     andthen (lift (py_getitem vals 0)) (\<lambda>target.
       if scheme_symbolp target then
         andthen (lift (check_form vals 2 (Some 2))) (\<lambda>_.
         andthen (lift (py_getitem vals 1)) (\<lambda>e.
         andthen (ev e env) (\<lambda>v.
         andthen (set_binding env target v) (\<lambda>_.
         ret PyNone))))
       else
         (case target of
            VPair tg formals \<Rightarrow>
              if \<not> scheme_symbolp tg then raise (SchemeError ''Not a symbol'')
              else
                andthen (lift (attr_second vals)) (\<lambda>body.
                andthen (ev (VPair (VSym ''lambda'') (VPair formals body)) env) (\<lambda>v.
                andthen (set_binding env tg v) (\<lambda>_.
                ret PyNone)))
          | _ \<Rightarrow> raise (SchemeError ''bad argument to define''))))"

definition do_quote_form :: "val \<Rightarrow> error + val" where
  "do_quote_form vals =
     attempt (check_form vals 1 (Some 1)) (\<lambda>_. py_getitem vals 0)"

text \<open>
  \<^verbatim>\<open>do_let_form\<close>: the \<^verbatim>\<open>while\<close> loop over the bindings, which conses each name and each value
  onto the lists \<^verbatim>\<open>names\<close> and \<^verbatim>\<open>value\<close>; the call frame; the \<^verbatim>\<open>for\<close> loop over the indices
  of all but the last body expression. The result is the last body expression and the new
  frame. \<^verbatim>\<open>check_form\<close> leaves at least one body expression, so \<^verbatim>\<open>len(exprs) - 1\<close> is not
  negative.
\<close>

fun let_bindings :: "evaluator \<Rightarrow> val \<Rightarrow> val \<Rightarrow> val \<Rightarrow> frame_ref \<Rightarrow> (val \<times> val) comp" where
  "let_bindings ev VNil names value env = ret (names, value)"
| "let_bindings ev (VPair k bindings') names value env =
     andthen (lift (attr_first k)) (\<lambda>name.
     andthen (lift (attr_second k)) (\<lambda>k_second.
     andthen (lift (py_getitem k_second 0)) (\<lambda>e.
     andthen (ev e env) (\<lambda>v.
     let_bindings ev bindings' (VPair name names) (VPair v value) env))))"
| "let_bindings ev _ names value env = raise (AttributeError ''first'')"

fun eval_indices :: "evaluator \<Rightarrow> val \<Rightarrow> frame_ref \<Rightarrow> nat list \<Rightarrow> unit comp" where
  "eval_indices ev exprs env [] = ret ()"
| "eval_indices ev exprs env (i # rest) =
     andthen (lift (py_getitem exprs i)) (\<lambda>e.
     andthen (ev e env) (\<lambda>_.
     eval_indices ev exprs env rest))"

definition do_let_form :: "evaluator \<Rightarrow> val \<Rightarrow> frame_ref \<Rightarrow> (val \<times> frame_ref) comp" where
  "do_let_form ev vals env =
     andthen (lift (check_form vals 2 None)) (\<lambda>_.
     andthen (lift (py_getitem vals 0)) (\<lambda>bindings.
     andthen (lift (attr_second vals)) (\<lambda>exprs.
       if \<not> scheme_listp bindings then raise (SchemeError ''bad bindings list in let form'')
       else
         andthen (let_bindings ev bindings VNil VNil env) (\<lambda>(names, value).
         andthen (make_call_frame env names value) (\<lambda>new_env.
         andthen (lift (py_len exprs)) (\<lambda>n.
         andthen (eval_indices ev exprs new_env [0..<n - 1]) (\<lambda>_.
         andthen (lift (py_getitem exprs (n - 1))) (\<lambda>e.
         ret (e, new_env)))))))))"

subsection \<open>Logical special forms\<close>

text \<open>
  The forms of the table \<^verbatim>\<open>LOGIC_FORMS\<close> return the expression to evaluate next. The loops
  of \<^verbatim>\<open>do_and_form\<close> and \<^verbatim>\<open>do_or_form\<close> test \<^verbatim>\<open>len(vals) != 0\<close> at each turn; a loop that ends
  without \<^verbatim>\<open>return\<close> gives \<^verbatim>\<open>None\<close>. In \<^verbatim>\<open>do_cond_form\<close> the index \<open>i\<close> counts the clauses
  from 0, and \<^verbatim>\<open>i < num_clauses - 1\<close> is written \<open>Suc i < num_clauses\<close>.
\<close>

definition do_if_form :: "evaluator \<Rightarrow> val \<Rightarrow> frame_ref \<Rightarrow> val comp" where
  "do_if_form ev vals env =
     andthen (lift (check_form vals 3 (Some 3))) (\<lambda>_.
     andthen (lift (py_getitem vals 0)) (\<lambda>boo.
     andthen (lift (py_getitem vals 1)) (\<lambda>true.
     andthen (lift (py_getitem vals 2)) (\<lambda>false.
     andthen (ev boo env) (\<lambda>v.
       if scheme_true v then ret true else ret false)))))"

fun and_loop :: "evaluator \<Rightarrow> val \<Rightarrow> frame_ref \<Rightarrow> val comp" where
  "and_loop ev (VPair x rest) env =
     andthen (lift (py_len (VPair x rest))) (\<lambda>n.
       if n \<noteq> 0 then
         andthen (ev x env) (\<lambda>v.
           if scheme_false v then ret x
           else
             andthen (lift (py_len rest)) (\<lambda>m.
               if m = 1 then lift (attr_first rest)
               else if rest = VNil then ret (VBool True)
               else and_loop ev rest env))
       else ret PyNone)"
| "and_loop ev vals env =
     andthen (lift (py_len vals)) (\<lambda>n.
       if n \<noteq> 0 then raise (AttributeError ''first'') else ret PyNone)"

definition do_and_form :: "evaluator \<Rightarrow> val \<Rightarrow> frame_ref \<Rightarrow> val comp" where
  "do_and_form ev vals env =
     andthen (lift (py_len vals)) (\<lambda>n.
       if n = 0 then ret (VBool True) else and_loop ev vals env)"

fun or_loop :: "evaluator \<Rightarrow> val \<Rightarrow> frame_ref \<Rightarrow> val comp" where
  "or_loop ev (VPair x rest) env =
     andthen (lift (py_len (VPair x rest))) (\<lambda>n.
       if n \<noteq> 0 then
         andthen (ev x env) (\<lambda>v.
           if scheme_true v then ret x
           else
             andthen (lift (py_len rest)) (\<lambda>m.
               if m = 1 then lift (attr_first rest)
               else if rest = VNil then ret (VBool False)
               else or_loop ev rest env))
       else ret PyNone)"
| "or_loop ev vals env =
     andthen (lift (py_len vals)) (\<lambda>n.
       if n \<noteq> 0 then raise (AttributeError ''first'') else ret PyNone)"

definition do_or_form :: "evaluator \<Rightarrow> val \<Rightarrow> frame_ref \<Rightarrow> val comp" where
  "do_or_form ev vals env =
     andthen (lift (py_len vals)) (\<lambda>n.
       if n = 0 then ret (VBool False) else or_loop ev vals env)"

fun cond_loop :: "evaluator \<Rightarrow> nat \<Rightarrow> nat \<Rightarrow> val \<Rightarrow> frame_ref \<Rightarrow> val comp" where
  "cond_loop ev num_clauses i VNil env = ret PyNone"
| "cond_loop ev num_clauses i (VPair clause rest) env =
     andthen (lift (check_form clause 1 None)) (\<lambda>_.
     andthen (lift (attr_first clause)) (\<lambda>clause_first.
     andthen (lift (attr_second clause)) (\<lambda>clause_second.
     andthen
       (if clause_first = VSym ''else'' then
          (if Suc i < num_clauses then raise (SchemeError ''else must be last'')
           else if clause_second = VNil then raise (SchemeError ''badly formed else clause'')
           else ret (VBool True))
        else ev clause_first env) (\<lambda>test.
     andthen (lift (py_truthy test)) (\<lambda>truthy.
       if truthy then
         (if clause_second = VNil then ret clause_first
          else ret (VPair (VSym ''begin'') clause_second))
       else cond_loop ev num_clauses (Suc i) rest env)))))"
| "cond_loop ev num_clauses i _ env = raise (TypeError ''ill-formed list'')"

definition do_cond_form :: "evaluator \<Rightarrow> val \<Rightarrow> frame_ref \<Rightarrow> val comp" where
  "do_cond_form ev vals env =
     andthen (lift (py_len vals)) (\<lambda>num_clauses. cond_loop ev num_clauses 0 vals env)"

fun do_begin_form :: "evaluator \<Rightarrow> val \<Rightarrow> frame_ref \<Rightarrow> val comp" where
  "do_begin_form ev (VPair x rest) env =
     andthen (lift (check_form (VPair x rest) 1 None)) (\<lambda>_.
     andthen (lift (py_len (VPair x rest))) (\<lambda>n.
       if n = 1 then ret x
       else andthen (ev x env) (\<lambda>_. do_begin_form ev rest env)))"
| "do_begin_form ev vals env =
     andthen (lift (check_form vals 1 None)) (\<lambda>_.
     andthen (lift (py_len vals)) (\<lambda>n.
       raise (AttributeError ''first'')))"

definition LOGIC_FORMS :: "val \<Rightarrow> (evaluator \<Rightarrow> val \<Rightarrow> frame_ref \<Rightarrow> val comp) option" where
  "LOGIC_FORMS first' =
     (if first' = VSym ''and'' then Some do_and_form
      else if first' = VSym ''or'' then Some do_or_form
      else if first' = VSym ''if'' then Some do_if_form
      else if first' = VSym ''cond'' then Some do_cond_form
      else if first' = VSym ''begin'' then Some do_begin_form
      else None)"

subsection \<open>Eval and apply\<close>

text \<open>
  \<^verbatim>\<open>apply_primitive\<close> collects the arguments in a Python list and turns a \<^verbatim>\<open>TypeError\<close> of the
  native function into a \<^verbatim>\<open>SchemeError\<close>. \<open>map_eval\<close> is \<^verbatim>\<open>rest.map\<close> with the evaluation of
  an operand as the function, from left to right.
\<close>

fun py_list_of :: "val \<Rightarrow> error + val list" where
  "py_list_of VNil = Inr []"
| "py_list_of (VPair a b) = attempt (py_list_of b) (\<lambda>xs. Inr (a # xs))"
| "py_list_of _ = Inl (AttributeError ''first'')"

definition apply_primitive :: "natives \<Rightarrow> evaluator \<Rightarrow> val \<Rightarrow> val \<Rightarrow> frame_ref \<Rightarrow> val comp" where
  "apply_primitive N ev procedure args env =
     (case procedure of
        PrimitiveProcedure fn use_env \<Rightarrow>
          andthen (lift (py_list_of args)) (\<lambda>py_list s.
            (case N ev fn py_list (if use_env then Some env else None) s of
               Some (Inl (TypeError m), s') \<Rightarrow> Some (Inl (SchemeError ''bad''), s')
             | r \<Rightarrow> r))
      | _ \<Rightarrow> raise (AttributeError ''use_env''))"

fun map_eval :: "evaluator \<Rightarrow> val \<Rightarrow> frame_ref \<Rightarrow> val comp" where
  "map_eval ev VNil env = ret VNil"
| "map_eval ev (VPair operand rest) env =
     andthen (ev operand env) (\<lambda>mapped.
       if rest = VNil \<or> scheme_pairp rest then
         andthen (map_eval ev rest env) (\<lambda>tail. ret (VPair mapped tail))
       else raise (TypeError ''ill-formed list''))"
| "map_eval ev _ env = raise (AttributeError ''map'')"

definition scheme_apply :: "natives \<Rightarrow> evaluator \<Rightarrow> val \<Rightarrow> val \<Rightarrow> frame_ref \<Rightarrow> val comp" where
  "scheme_apply N ev procedure args env =
     (case procedure of
        PrimitiveProcedure fn use_env \<Rightarrow> apply_primitive N ev procedure args env
      | LambdaProcedure formals body penv \<Rightarrow>
          andthen (make_call_frame penv formals args) (\<lambda>new. ev body new)
      | MuProcedure formals body \<Rightarrow>
          andthen (make_call_frame env formals args) (\<lambda>new. ev body new)
      | _ \<Rightarrow> raise (SchemeError ''Cannot call''))"

text \<open>
  The recursive evaluator \<^verbatim>\<open>scheme_eval\<close> (with \<^verbatim>\<open>scheme_apply\<close> above) and the trampolined
  \<^verbatim>\<open>scheme_optimized_eval\<close>. Either may run forever, so each takes fuel: a call, and a turn
  of the \<^verbatim>\<open>while True\<close> loop, uses one unit, and an evaluation out of fuel is \<open>None\<close>. The depth
  of the host's stack is not modelled. The text that the message of \<^verbatim>\<open>malformed list\<close> and of
  \<^verbatim>\<open>Cannot call\<close> ends with, the printed expression, is left out.
\<close>

primrec scheme_eval :: "natives \<Rightarrow> nat \<Rightarrow> val \<Rightarrow> frame_ref \<Rightarrow> val comp" where
  "scheme_eval N 0 expr env = (\<lambda>s. None)"
| "scheme_eval N (Suc fuel) expr env =
     (if expr = PyNone then raise (SchemeError ''Cannot evaluate an undefined expression.'')
      else if scheme_symbolp expr then Frame_lookup_st env expr
      else if scheme_atomp_val expr then ret expr
      else if \<not> scheme_listp expr then raise (SchemeError ''malformed list'')
      else
        (case expr of
           VPair first' rest \<Rightarrow>
             (case LOGIC_FORMS first' of
                Some form \<Rightarrow>
                  andthen (form (scheme_eval N fuel) rest env) (\<lambda>e. scheme_eval N fuel e env)
              | None \<Rightarrow>
                  if first' = VSym ''lambda'' then lift (do_lambda_form rest env)
                  else if first' = VSym ''mu'' then lift (do_mu_form rest)
                  else if first' = VSym ''define'' then do_define_form (scheme_eval N fuel) rest env
                  else if first' = VSym ''quote'' then lift (do_quote_form rest)
                  else if first' = VSym ''let'' then
                    andthen (do_let_form (scheme_eval N fuel) rest env)
                      (\<lambda>(e, new_env). scheme_eval N fuel e new_env)
                  else
                    andthen (scheme_eval N fuel first' env) (\<lambda>procedure.
                    andthen (map_eval (scheme_eval N fuel) rest env) (\<lambda>args.
                    scheme_apply N (scheme_eval N fuel) procedure args env)))
         | _ \<Rightarrow> raise (AttributeError ''first'')))"

primrec scheme_optimized_eval :: "natives \<Rightarrow> nat \<Rightarrow> val \<Rightarrow> frame_ref \<Rightarrow> val comp" where
  "scheme_optimized_eval N 0 expr env = (\<lambda>s. None)"
| "scheme_optimized_eval N (Suc fuel) expr env =
     (if expr = PyNone then raise (SchemeError ''Cannot evaluate an undefined expression.'')
      else if scheme_symbolp expr then Frame_lookup_st env expr
      else if scheme_atomp_val expr then ret expr
      else if \<not> scheme_listp expr then raise (SchemeError ''malformed list'')
      else
        (case expr of
           VPair first' rest \<Rightarrow>
             (case LOGIC_FORMS first' of
                Some form \<Rightarrow>
                  andthen (form (scheme_optimized_eval N fuel) rest env) (\<lambda>expr'.
                  scheme_optimized_eval N fuel expr' env)
              | None \<Rightarrow>
                  if first' = VSym ''lambda'' then lift (do_lambda_form rest env)
                  else if first' = VSym ''mu'' then lift (do_mu_form rest)
                  else if first' = VSym ''define'' then
                    do_define_form (scheme_optimized_eval N fuel) rest env
                  else if first' = VSym ''quote'' then lift (do_quote_form rest)
                  else if first' = VSym ''let'' then
                    andthen (do_let_form (scheme_optimized_eval N fuel) rest env)
                      (\<lambda>(expr', env'). scheme_optimized_eval N fuel expr' env')
                  else
                    andthen (scheme_optimized_eval N fuel first' env) (\<lambda>procedure.
                    andthen (map_eval (scheme_optimized_eval N fuel) rest env) (\<lambda>args.
                      (case procedure of
                         PrimitiveProcedure fn use_env \<Rightarrow>
                           apply_primitive N (scheme_optimized_eval N fuel) procedure args env
                       | LambdaProcedure formals body penv \<Rightarrow>
                           andthen (make_call_frame penv formals args) (\<lambda>env'.
                           scheme_optimized_eval N fuel body env')
                       | MuProcedure formals body \<Rightarrow>
                           andthen (make_call_frame env formals args) (\<lambda>env'.
                           scheme_optimized_eval N fuel body env')
                       | _ \<Rightarrow> raise (SchemeError ''Cannot call'')))))
         | _ \<Rightarrow> raise (AttributeError ''first'')))"

section \<open>Example data\<close>

text \<open>A proper list of terms: pairs ended by the empty list.\<close>

definition slist :: "sexp list \<Rightarrow> sexp" where
  "slist xs = foldr Pair xs nil"

text \<open>
  The fact list after the forms \<^verbatim>\<open>(fact (parent abe homer))\<close>, \<^verbatim>\<open>(fact (parent homer bart))\<close>
  and \<^verbatim>\<open>(fact (grandparent ?a ?c) (parent ?a ?b) (parent ?b ?c))\<close>: \<^verbatim>\<open>process_input\<close> appends
  \<^verbatim>\<open>expr.second\<close>, the pair of the head and the list of hypotheses.
\<close>

definition family_facts :: "sexp list" where
  "family_facts =
     [Pair (slist [Sym ''parent'', Sym ''abe'', Sym ''homer'']) nil,
      Pair (slist [Sym ''parent'', Sym ''homer'', Sym ''bart'']) nil,
      Pair (slist [Sym ''grandparent'', Sym ''?a'', Sym ''?c''])
           (slist [slist [Sym ''parent'', Sym ''?a'', Sym ''?b''],
                   slist [Sym ''parent'', Sym ''?b'', Sym ''?c'']])]"

text \<open>The fact list after \<^verbatim>\<open>(fact (loop ?x) (loop ?x))\<close>.\<close>

definition loop_facts :: "sexp list" where
  "loop_facts = [Pair (slist [Sym ''loop'', Sym ''?x'']) (slist [slist [Sym ''loop'', Sym ''?x'']])]"

text \<open>A term occurs in another: it is that term or occurs in a component of the pair.\<close>

fun occurs :: "sexp \<Rightarrow> sexp \<Rightarrow> bool" where
  "occurs v (Pair a b) = (v = Pair a b \<or> occurs v a \<or> occurs v b)"
| "occurs v t = (v = t)"

text \<open>A proper list of values.\<close>

definition vlist :: "val list \<Rightarrow> val" where
  "vlist xs = foldr VPair xs VNil"

text \<open>A table of primitives that has none: every call of a primitive raises.\<close>

definition no_natives :: natives where
  "no_natives ev fn args env = raise (SchemeError ''unknown primitive'')"

text \<open>
  No clause of a \<^verbatim>\<open>cond\<close> holds: the clauses are pairs of a test, which is not \<^verbatim>\<open>else\<close>, and
  a body; the tests, evaluated in order from the store \<open>s\<close>, each return the false value, so
  that none is true-ish, and leave the store \<open>s'\<close>.
\<close>

fun no_clause_holds :: "evaluator \<Rightarrow> val list \<Rightarrow> frame_ref \<Rightarrow> store \<Rightarrow> store \<Rightarrow> bool" where
  "no_clause_holds ev [] env s s' = (s' = s)"
| "no_clause_holds ev (VPair test body # clauses) env s s' =
     (test \<noteq> VSym ''else'' \<and> scheme_listp body \<and>
      (case ev test env s of
         Some (Inr v, s1) \<Rightarrow> scheme_false v \<and> no_clause_holds ev clauses env s1 s'
       | _ \<Rightarrow> False))"
| "no_clause_holds ev (_ # clauses) env s s' = False"

text \<open>
  The bindings a call frame receives: each formal parameter, in order, with the argument at
  the same position, as far as both lists go.
\<close>

definition call_bindings :: "val list \<Rightarrow> val list \<Rightarrow> (val \<rightharpoonup> val)" where
  "call_bindings formals args = fold (\<lambda>(target, value) m. m(target \<mapsto> value)) (zip formals args) Map.empty"

text \<open>
  The let form in the words of the specification. The expressions of a list are evaluated in
  order, in one environment, each from the store the one before left.
\<close>

fun eval_each :: "evaluator \<Rightarrow> val list \<Rightarrow> frame_ref \<Rightarrow> (val list) comp" where
  "eval_each ev [] env = ret []"
| "eval_each ev (e # es) env =
     andthen (ev e env) (\<lambda>v.
     andthen (eval_each ev es env) (\<lambda>vs.
     ret (v # vs)))"

text \<open>One new frame, child of \<open>env\<close>, that holds the given bindings from the start.\<close>

definition new_frame_with :: "frame_ref \<Rightarrow> (val \<rightharpoonup> val) \<Rightarrow> frame_ref comp" where
  "new_frame_with env d s = Some (Inr (FrameRef (length s) (Some env)), s @ [d])"

text \<open>
  Every value expression is evaluated in the outer environment; one new frame binds all the
  names; all but the last body expression are evaluated in the new frame; the last one is
  handed back with the new frame (\<open>let_spec\<close>), to be evaluated there (\<open>let_value_spec\<close>).
\<close>

definition let_spec ::
  "evaluator \<Rightarrow> (val \<times> val) list \<Rightarrow> val list \<Rightarrow> frame_ref \<Rightarrow> (val \<times> frame_ref) comp" where
  "let_spec ev bs body env =
     andthen (eval_each ev (map snd bs) env) (\<lambda>vals.
     andthen (new_frame_with env (map_of (zip (map fst bs) vals))) (\<lambda>new_env.
     andthen (eval_each ev (butlast body) new_env) (\<lambda>_.
     ret (last body, new_env))))"

definition let_value_spec ::
  "evaluator \<Rightarrow> (val \<times> val) list \<Rightarrow> val list \<Rightarrow> frame_ref \<Rightarrow> val comp" where
  "let_value_spec ev bs body env =
     andthen (eval_each ev (map snd bs) env) (\<lambda>vals.
     andthen (new_frame_with env (map_of (zip (map fst bs) vals))) (\<lambda>new_env.
     andthen (eval_each ev (butlast body) new_env) (\<lambda>_.
     ev (last body) new_env)))"

text \<open>A binding of a let form: the list of a name and a value expression.\<close>

definition let_binding :: "val \<times> val \<Rightarrow> val" where
  "let_binding b = vlist [fst b, snd b]"

text \<open>The elements of a list consed one by one onto a Scheme list, as the loop over the bindings does.\<close>

definition push_all :: "val list \<Rightarrow> val \<Rightarrow> val" where
  "push_all xs acc = foldl (\<lambda>a x. VPair x a) acc xs"

text \<open>
  Two frames resolve alike: every term resolves in both or in neither; what it resolves to is
  a variable in both or the same term in both; and two terms resolve to the same thing in one
  frame exactly when they do in the other.
\<close>

definition sim :: "frame \<Rightarrow> frame \<Rightarrow> bool" where
  "sim env1 env2 \<longleftrightarrow>
     (\<forall>t. (lookup t env1 = None) = (lookup t env2 = None)) \<and>
     (\<forall>t r1 r2. lookup t env1 = Some r1 \<longrightarrow> lookup t env2 = Some r2 \<longrightarrow>
        (isvar r1 = isvar r2) \<and> (\<not> isvar r1 \<longrightarrow> r1 = r2)) \<and>
     (\<forall>t u r1 r2 q1 q2.
        lookup t env1 = Some r1 \<longrightarrow> lookup t env2 = Some r2 \<longrightarrow>
        lookup u env1 = Some q1 \<longrightarrow> lookup u env2 = Some q2 \<longrightarrow>
        (r1 = q1) = (r2 = q2))"

section \<open>Evaluation of the recursive equations\<close>

declare lookup.simps [code]
declare unify.simps [code]
declare bind.simps [code]

lemmas lookup_induct = lookup.raw_induct [rotated 1, consumes 1, case_names step]
lemmas unify_induct = unify.raw_induct [rotated 1, consumes 1, case_names step]

section \<open>The scenarios of the logic layer\<close>

text \<open>
  C1. With the facts \<^verbatim>\<open>(parent abe homer)\<close>, \<^verbatim>\<open>(parent homer bart)\<close> and the rule
  \<^verbatim>\<open>(grandparent ?a ?c)\<close> from \<^verbatim>\<open>(parent ?a ?b)\<close> and \<^verbatim>\<open>(parent ?b ?c)\<close>, in a fresh
  session, the query \<^verbatim>\<open>(grandparent abe ?who)\<close> runs to its end and yields one solution,
  which binds \<^verbatim>\<open>?who\<close> to the atom \<^verbatim>\<open>bart\<close>; nine identifiers have been drawn.
\<close>

theorem grandparent_query:
  "do_query family_facts (slist [slist [Sym ''grandparent'', Sym ''abe'', Sym ''?who'']]) 0
     = ([[(Sym ''?who'', Sym ''bart'')]], 9, Finished)"
  by code_simp

text \<open>
  C2. With \<^verbatim>\<open>DEPTH_LIMIT = 20\<close> and the single clause \<^verbatim>\<open>(loop ?x)\<close> from \<^verbatim>\<open>(loop ?x)\<close>, the
  query \<^verbatim>\<open>(loop a)\<close> runs to its end, without an exception, and yields no solution: the
  clause is tried at the depths 0 to 20 and the goal left at depth 21 is dropped.
\<close>

theorem loop_query_fails:
  "DEPTH_LIMIT = 20 \<and>
   do_query loop_facts (slist [slist [Sym ''loop'', Sym ''a'']]) 0 = ([], 21, Finished)"
  by code_simp

section \<open>Unification and the bindings a frame has\<close>

lemma lookup_Sym_unbound:
  "lookup t env = Some r \<Longrightarrow> r = Sym s \<Longrightarrow> isl (Frame_lookup env s)"
proof (induct arbitrary: s rule: lookup_induct)
  case (step lookup' t env r)
  then show ?case
    by (auto split: sexp.splits sum.splits)
qed

lemma Frame_lookup_unbound_bindings: "isl (Frame_lookup env s) \<Longrightarrow> bindings env s = None"
  by (cases env) (auto split: option.splits)

lemma isvar_Sym: "isvar t \<Longrightarrow> \<exists>s. t = Sym s"
  by (cases t) auto

lemma define_fresh:
  assumes "lookup t env = Some r" "isvar r"
  shows "parent (Frame_define env r v) = parent env"
    and "bindings env k = Some x \<Longrightarrow> bindings (Frame_define env r v) k = Some x"
proof -
  from assms(2) obtain s where r: "r = Sym s" using isvar_Sym by blast
  with assms(1) have "bindings env s = None"
    using lookup_Sym_unbound Frame_lookup_unbound_bindings by blast
  then show "parent (Frame_define env r v) = parent env"
    and "bindings env k = Some x \<Longrightarrow> bindings (Frame_define env r v) k = Some x"
    using r by (cases env; auto)+
qed

text \<open>
  Where both terms resolve by themselves, the frame a call \<^verbatim>\<open>unify(e, f, env)\<close> leaves has
  the parent chain it had, and every binding of the frame before the call is still there with
  the same value.
\<close>

lemma unify_adds_where_resolved:
  "unify e f env = Some (ok, env') \<Longrightarrow>
     parent env' = parent env \<and> (\<forall>k v. bindings env k = Some v \<longrightarrow> bindings env' k = Some v)"
proof (induct e f env "(ok, env')" arbitrary: ok env' rule: unify_induct)
  case (step unify' e f env)
  from step(2) obtain e' f' where e': "lookup e env = Some e'" and f': "lookup f env = Some f'"
    by (auto simp: bind_eq_Some_conv)
  show ?case
  proof (cases "e' = f' \<or> isvar e' \<or> isvar f' \<or> scheme_atomp e' \<or> scheme_atomp f'")
    case True
    then show ?thesis using step(2) e' f' define_fresh[OF e'] define_fresh[OF f']
      by (auto split: if_splits)
  next
    case False
    with step(2) e' f' obtain ok1 env1 where
      u1: "unify' (first e') (first f') env = Some (ok1, env1)" and
      rest: "(if ok1 then unify' (second e') (second f') env1 else Some (False, env1))
               = Some (ok, env')"
      by (auto simp: bind_eq_Some_conv)
    from step(1)[OF u1] have m1: "parent env1 = parent env"
      "\<And>k v. bindings env k = Some v \<Longrightarrow> bindings env1 k = Some v" by auto
    show ?thesis
    proof (cases ok1)
      case True
      with rest have "unify' (second e') (second f') env1 = Some (ok, env')" by simp
      from step(1)[OF this] m1 show ?thesis by auto
    next
      case False
      with rest m1 show ?thesis by auto
    qed
  qed
qed

subsection \<open>With the depth of the stack\<close>

text \<open>
  With room enough on the stack, the bounded functions give what the unbounded ones give,
  wherever those give a result.
\<close>

lemma Frame_lookup_bounded_enough:
  "\<exists>k. \<forall>n\<ge>k. Frame_lookup_bounded n env s = Frame_lookup env s"
proof (induct env s rule: Frame_lookup.induct)
  case (1 b p symbol)
  show ?case
  proof (cases "b symbol")
    case (Some v)
    then show ?thesis by simp
  next
    case None
    show ?thesis
    proof (cases p)
      case pn: None
      with None show ?thesis by simp
    next
      case (Some up)
      from 1 [OF None Some] obtain k where
        k: "\<forall>n\<ge>k. Frame_lookup_bounded n up symbol = Frame_lookup up symbol" by blast
      have "\<forall>n\<ge>Suc k. Frame_lookup_bounded n (Frame b p) symbol = Frame_lookup (Frame b p) symbol"
      proof (intro allI impI)
        fix n assume "Suc k \<le> n"
        then obtain m where "n = Suc m" "k \<le> m" by (cases n) auto
        with k None Some
        show "Frame_lookup_bounded n (Frame b p) symbol = Frame_lookup (Frame b p) symbol"
          by simp
      qed
      then show ?thesis by blast
    qed
  qed
qed

lemma lookup_bounded_non_symbol: "\<forall>s. t \<noteq> Sym s \<Longrightarrow> lookup_bounded n t env = t"
  by (cases n; cases t) simp_all

lemma lookup_bounded_enough:
  "lookup t env = Some r \<Longrightarrow> \<exists>k. \<forall>n\<ge>k. lookup_bounded n t env = r"
proof (induct rule: lookup_induct)
  case (step lookup' t env r)
  show ?case
  proof (cases t)
    case (Sym s)
    from Frame_lookup_bounded_enough obtain k where
      k: "\<forall>n\<ge>k. Frame_lookup_bounded n env s = Frame_lookup env s" by blast
    show ?thesis
    proof (cases "Frame_lookup env s")
      case (Inl err)
      with step(2) Sym have r: "r = t" by simp
      have "\<forall>n\<ge>Suc k. lookup_bounded n t env = r"
      proof (intro allI impI)
        fix n assume "Suc k \<le> n"
        then obtain m where "n = Suc m" "k \<le> m" by (cases n) auto
        with k Inl Sym r show "lookup_bounded n t env = r" by simp
      qed
      then show ?thesis by blast
    next
      case (Inr v)
      with step(2) Sym have "lookup' v env = Some r" by simp
      from step(1) [OF this] obtain k1 where k1: "\<forall>n\<ge>k1. lookup_bounded n v env = r" by blast
      have "\<forall>n\<ge>Suc (max k k1). lookup_bounded n t env = r"
      proof (intro allI impI)
        fix n assume "Suc (max k k1) \<le> n"
        then obtain m where "n = Suc m" "k \<le> m" "k1 \<le> m" by (cases n) auto
        with k k1 Inr Sym show "lookup_bounded n t env = r" by simp
      qed
      then show ?thesis by blast
    qed
  qed (use step(2) lookup_bounded_non_symbol in auto)
qed

lemma unify_bounded_enough:
  "unify e f env = Some (ok, env') \<Longrightarrow> \<exists>k. \<forall>n\<ge>k. unify_bounded n e f env = (Inr ok, env')"
proof (induct e f env "(ok, env')" arbitrary: ok env' rule: unify_induct)
  case (step unify' e f env)
  from step(2) obtain e' f' where e': "lookup e env = Some e'" and f': "lookup f env = Some f'"
    by (auto simp: bind_eq_Some_conv)
  from lookup_bounded_enough [OF e'] obtain ke where ke: "\<forall>n\<ge>ke. lookup_bounded n e env = e'"
    by blast
  from lookup_bounded_enough [OF f'] obtain kf where kf: "\<forall>n\<ge>kf. lookup_bounded n f env = f'"
    by blast
  show ?case
  proof (cases "e' = f' \<or> isvar e' \<or> isvar f' \<or> scheme_atomp e' \<or> scheme_atomp f'")
    case True
    have "\<forall>n\<ge>Suc (Suc (max ke kf)). unify_bounded n e f env = (Inr ok, env')"
    proof (intro allI impI)
      fix n assume "Suc (Suc (max ke kf)) \<le> n"
      then obtain m where n: "n = Suc m" and m: "ke \<le> m" "kf \<le> m" "m \<noteq> 0" by (cases n) auto
      from ke kf m have "lookup_bounded m e env = e'" "lookup_bounded m f env = f'" by auto
      with True step(2) e' f' n m(3) show "unify_bounded n e f env = (Inr ok, env')"
        by (auto simp: Let_def split: if_splits)
    qed
    then show ?thesis by blast
  next
    case False
    with step(2) e' f' obtain ok1 env1 where
      u1: "unify' (first e') (first f') env = Some (ok1, env1)" and
      rest: "(if ok1 then unify' (second e') (second f') env1 else Some (False, env1))
               = Some (ok, env')"
      by (auto simp: bind_eq_Some_conv)
    from step(1) [OF u1] obtain k1 where
      k1: "\<forall>n\<ge>k1. unify_bounded n (first e') (first f') env = (Inr ok1, env1)" by blast
    have "\<exists>k2. \<forall>n\<ge>k2. (if ok1 then unify_bounded n (second e') (second f') env1
                                 else (Inr False, env1)) = (Inr ok, env')"
    proof (cases ok1)
      case True
      with rest have "unify' (second e') (second f') env1 = Some (ok, env')" by simp
      from step(1) [OF this] True show ?thesis by simp
    next
      case False
      with rest show ?thesis by simp
    qed
    then obtain k2 where
      k2: "\<forall>n\<ge>k2. (if ok1 then unify_bounded n (second e') (second f') env1
                       else (Inr False, env1)) = (Inr ok, env')" by blast
    have "\<forall>n\<ge>Suc (Suc (max (max ke kf) (max k1 k2))). unify_bounded n e f env = (Inr ok, env')"
    proof (intro allI impI)
      fix n assume "Suc (Suc (max (max ke kf) (max k1 k2))) \<le> n"
      then obtain m where n: "n = Suc m" and m: "ke \<le> m" "kf \<le> m" "k1 \<le> m" "k2 \<le> m" "m \<noteq> 0"
        by (cases n) auto
      from ke kf m have l: "lookup_bounded m e env = e'" "lookup_bounded m f env = f'" by auto
      from k1 m have b1: "unify_bounded m (first e') (first f') env = (Inr ok1, env1)" by simp
      from k2 m have b2: "(if ok1 then unify_bounded m (second e') (second f') env1
                       else (Inr False, env1)) = (Inr ok, env')" by simp
      from False l b1 b2 n m(5) show "unify_bounded n e f env = (Inr ok, env')"
        by (cases ok1) (simp_all add: Let_def)
    qed
    then show ?thesis by blast
  qed
qed

text \<open>
  Where the chain of bindings of a term has no end, the bounded \<^verbatim>\<open>lookup\<close> still returns:
  what it returns is a symbol of the chain, one that has a binding, so not a resolved term.
\<close>

lemma lookup_unresolved_bound:
  "lookup t env = None \<Longrightarrow> \<exists>s v. t = Sym s \<and> Frame_lookup env s = Inr v \<and> lookup v env = None"
  by (subst (asm) lookup.simps) (auto split: sexp.splits sum.splits)

lemma Frame_lookup_bounded_cases:
  "Frame_lookup_bounded n env s = Frame_lookup env s
     \<or> Frame_lookup_bounded n env s = Inl RecursionError"
proof (induct n env s rule: Frame_lookup_bounded.induct)
  case (1 n b p symbol)
  then show ?case by (auto split: option.splits nat.splits)
qed

lemma lookup_bounded_unresolved:
  "lookup t env = None \<Longrightarrow>
     \<exists>s v. lookup_bounded n t env = Sym s \<and> Frame_lookup env s = Inr v"
proof (induct n arbitrary: t)
  case 0
  from lookup_unresolved_bound [OF 0] obtain s v where
    "t = Sym s" "Frame_lookup env s = Inr v" by blast
  then show ?case by simp
next
  case (Suc n)
  from lookup_unresolved_bound [OF Suc.prems] obtain s v where
    t: "t = Sym s" and fl: "Frame_lookup env s = Inr v" and v: "lookup v env = None" by blast
  from Frame_lookup_bounded_cases [of n env s] show ?case
  proof
    assume "Frame_lookup_bounded n env s = Frame_lookup env s"
    with t fl have "lookup_bounded (Suc n) t env = lookup_bounded n v env" by simp
    with Suc.hyps [OF v] show ?thesis by simp
  next
    assume "Frame_lookup_bounded n env s = Inl RecursionError"
    with t have "lookup_bounded (Suc n) t env = Sym s" by simp
    with fl show ?thesis by blast
  qed
qed



section \<open>No occurs-check\<close>

text \<open>
  C8. For a logical variable \<open>v\<close> that is unbound in the frame and its parent chain, and a
  pair \<open>t\<close> in which \<open>v\<close> occurs, \<^verbatim>\<open>unify(v, t, frame)\<close> returns \<^verbatim>\<open>True\<close> and leaves \<open>v\<close>
  bound to \<open>t\<close> in the frame: there is no occurs-check.
\<close>

theorem unify_no_occurs_check:
  assumes "isvar (Sym v)" and "isl (Frame_lookup env v)" and "occurs (Sym v) (Pair a b)"
  shows "unify (Sym v) (Pair a b) env = Some (True, Frame_define env (Sym v) (Pair a b))
       \<and> Frame_lookup (Frame_define env (Sym v) (Pair a b)) v = Inr (Pair a b)"
proof -
  from assms(2) have l1: "lookup (Sym v) env = Some (Sym v)"
    by (subst lookup.simps) (auto split: sum.splits)
  have l2: "lookup (Pair a b) env = Some (Pair a b)"
    by (subst lookup.simps) simp
  have u: "unify (Sym v) (Pair a b) env = Some (True, Frame_define env (Sym v) (Pair a b))"
    using assms(1) by (subst unify.simps) (simp add: l1 l2)
  have "Frame_lookup (Frame_define env (Sym v) (Pair a b)) v = Inr (Pair a b)"
    by (cases env) simp
  with u show ?thesis by simp
qed

theorem unify_no_occurs_check_witness:
  "isvar (Sym ''?x'') \<and> isl (Frame_lookup (Frame Map.empty None) ''?x'')
   \<and> occurs (Sym ''?x'') (Pair (Sym ''f'') (Pair (Sym ''?x'') nil))
   \<and> unify (Sym ''?x'') (Pair (Sym ''f'') (Pair (Sym ''?x'') nil)) (Frame Map.empty None)
       = Some (True, Frame [''?x'' \<mapsto> Pair (Sym ''f'') (Pair (Sym ''?x'') nil)] None)"
proof -
  have h1: "isvar (Sym ''?x'')" by simp
  have h2: "isl (Frame_lookup (Frame Map.empty None) ''?x'')" by simp
  have h3: "occurs (Sym ''?x'') (Pair (Sym ''f'') (Pair (Sym ''?x'') nil))" by simp
  from unify_no_occurs_check [OF h1 h2 h3] h1 h2 h3 show ?thesis by simp
qed

section \<open>Freshness of renamed variables\<close>

declare str.simps [simp del]

lemma digit_char_not_underscore: "digit_char d \<noteq> CHR ''_''"
  by (simp add: digit_char_def)

lemma digit_char_inj: "a < 10 \<Longrightarrow> b < 10 \<Longrightarrow> digit_char a = digit_char b \<Longrightarrow> a = b"
proof -
  assume a: "a < 10" and b: "b < 10" and e: "digit_char a = digit_char b"
  from a have "a \<in> {0,1,2,3,4,5,6,7,8,9}" by auto
  moreover from b have "b \<in> {0,1,2,3,4,5,6,7,8,9}" by auto
  ultimately show ?thesis using e unfolding digit_char_def by auto
qed


lemma str_no_underscore: "CHR ''_'' \<notin> set (str n)"
proof (induction n rule: str.induct)
  case (1 n)
  then show ?case
    using digit_char_not_underscore [of n] digit_char_not_underscore [of "n mod 10"]
    by (subst str.simps) auto
qed

lemma str_not_empty: "str n \<noteq> []"
  by (subst str.simps) simp

lemma str_inj: "str n = str m \<Longrightarrow> n = m"
proof (induction n arbitrary: m rule: str.induct)
  case (1 n)
  show ?case
  proof (cases "n < 10")
    case True
    then have sn: "str n = [digit_char n]" by (subst str.simps) simp
    show ?thesis
    proof (cases "m < 10")
      case m: True
      then have "str m = [digit_char m]" by (subst str.simps) simp
      with sn "1.prems" have "digit_char n = digit_char m" by simp
      with True m show ?thesis by (rule digit_char_inj)
    next
      case False
      then have "str m = str (m div 10) @ [digit_char (m mod 10)]" by (subst str.simps) simp
      with sn "1.prems" have "str (m div 10) = []" by simp
      then show ?thesis using str_not_empty by blast
    qed
  next
    case False
    then have sn: "str n = str (n div 10) @ [digit_char (n mod 10)]" by (subst str.simps) simp
    show ?thesis
    proof (cases "m < 10")
      case True
      then have "str m = [digit_char m]" by (subst str.simps) simp
      with sn "1.prems" have "str (n div 10) = []" by simp
      then show ?thesis using str_not_empty by blast
    next
      case m: False
      then have "str m = str (m div 10) @ [digit_char (m mod 10)]" by (subst str.simps) simp
      with sn "1.prems" have a: "str (n div 10) = str (m div 10)"
        and b: "digit_char (n mod 10) = digit_char (m mod 10)" by auto
      from "1.IH"[OF False a] have d: "n div 10 = m div 10" .
      have "n mod 10 < 10" "m mod 10 < 10" by simp_all
      then have r: "n mod 10 = m mod 10" using b by (rule digit_char_inj)
      have "n = 10 * (n div 10) + n mod 10" by simp
      also have "\<dots> = 10 * (m div 10) + m mod 10" using d r by simp
      also have "\<dots> = m" by simp
      finally show ?thesis .
    qed
  qed
qed


lemma takeWhile_before: "c \<notin> set xs \<Longrightarrow> takeWhile (\<lambda>x. x \<noteq> c) (xs @ c # ys) = xs"
  by (induction xs) auto

lemma suffix_after_last:
  assumes "c \<notin> set u" "c \<notin> set w" "s @ c # u = s' @ c # w"
  shows "u = w"
proof -
  from assms(3) have "rev (s @ c # u) = rev (s' @ c # w)" by simp
  then have "rev u @ c # rev s = rev w @ c # rev s'" by simp
  then have "takeWhile (\<lambda>x. x \<noteq> c) (rev u @ c # rev s)
           = takeWhile (\<lambda>x. x \<noteq> c) (rev w @ c # rev s')"
    by simp
  then have "rev u = rev w" using assms(1,2) by (simp add: takeWhile_before)
  then show ?thesis by simp
qed

lemma label_suffix_inj:
  assumes "s @ ''_'' @ str n = s' @ ''_'' @ str m"
  shows "n = m"
proof -
  from assms have "s @ CHR ''_'' # str n = s' @ CHR ''_'' # str m" by simp
  then have "str n = str m"
    by (rule suffix_after_last [OF str_no_underscore str_no_underscore])
  then show ?thesis by (rule str_inj)
qed

lemma set_foldl_add:
  "set (foldl (\<lambda>vs v. if v \<in> set vs then vs else vs @ [v]) xs ys) = set xs \<union> set ys"
  by (induction ys arbitrary: xs) auto

lemma get_vars_label: "v \<in> set (get_vars (label t n)) \<Longrightarrow> \<exists>s. v = Sym (s @ ''_'' @ str n)"
proof (induction t arbitrary: v)
  case (Sym x)
  then show ?case by (auto split: if_splits)
next
  case (Pair a b)
  then show ?case by (auto simp: set_foldl_add)
qed auto

text \<open>
  C9. Two uses of a fact draw two identifiers from the counter, the second when the counter
  is at least what the first left; the variables of the fact renamed with the first
  identifier and those renamed with the second are disjoint sets.
\<close>

theorem label_fresh:
  assumes "get_unique_id i = (n, i')" and "i' \<le> j" and "get_unique_id j = (m, j')"
  shows "set (get_vars (label cl n)) \<inter> set (get_vars (label cl m)) = {}"
proof -
  from assms have neq: "n \<noteq> m" by (auto simp: get_unique_id_def)
  show ?thesis
  proof (rule ccontr)
    assume "set (get_vars (label cl n)) \<inter> set (get_vars (label cl m)) \<noteq> {}"
    then obtain v where v1: "v \<in> set (get_vars (label cl n))"
      and v2: "v \<in> set (get_vars (label cl m))" by blast
    from get_vars_label [OF v1] obtain s where s: "v = Sym (s @ ''_'' @ str n)" by blast
    from get_vars_label [OF v2] obtain s' where s': "v = Sym (s' @ ''_'' @ str m)" by blast
    from s s' have "s @ ''_'' @ str n = s' @ ''_'' @ str m" by simp
    then have "n = m" by (rule label_suffix_inj)
    with neq show False by simp
  qed
qed

theorem label_fresh_witness:
  "get_unique_id 0 = (1, 1) \<and> (1::nat) \<le> 1 \<and> get_unique_id 1 = (2, 2)
   \<and> get_vars (label (Pair (Sym ''?a'') (Pair (Sym ''?a_1'') nil)) 1)
       = [Sym ''?a_1'', Sym ''?a_1_1'']
   \<and> get_vars (label (Pair (Sym ''?a'') (Pair (Sym ''?a_1'') nil)) 2)
       = [Sym ''?a_2'', Sym ''?a_1_2'']
   \<and> set (get_vars (label (Pair (Sym ''?a'') (Pair (Sym ''?a_1'') nil)) 1))
       \<inter> set (get_vars (label (Pair (Sym ''?a'') (Pair (Sym ''?a_1'') nil)) 2)) = {}"
proof -
  have h1: "get_unique_id 0 = (1, 1)" by (simp add: get_unique_id_def)
  have h2: "(1::nat) \<le> 1" by simp
  have h3: "get_unique_id 1 = (2, 2)" by (simp add: get_unique_id_def)
  have v1: "get_vars (label (Pair (Sym ''?a'') (Pair (Sym ''?a_1'') nil)) 1)
       = [Sym ''?a_1'', Sym ''?a_1_1'']"
    by code_simp
  have v2: "get_vars (label (Pair (Sym ''?a'') (Pair (Sym ''?a_1'') nil)) 2)
       = [Sym ''?a_2'', Sym ''?a_1_2'']"
    by code_simp
  from label_fresh [OF h1 h2 h3] h1 h2 h3 v1 v2 show ?thesis by blast
qed

section \<open>The two evaluators\<close>

text \<open>
  In the model every call and every turn of the trampoline's loop uses one unit of fuel,
  and \<open>None\<close> is an evaluation that has not returned within the fuel given. The recursive
  evaluator calls itself where the source calls \<^verbatim>\<open>scheme_eval\<close>; the trampolined one calls
  itself there too, since the module rebinds that name to it.
\<close>

lemma evaluators_same_function: "scheme_eval N fuel = scheme_optimized_eval N fuel"
proof (induction fuel)
  case 0
  show ?case by (intro ext) simp
next
  case (Suc fuel)
  have ap: "scheme_apply N (scheme_optimized_eval N fuel) procedure args env =
      (case procedure of
         PrimitiveProcedure fn use_env \<Rightarrow>
           apply_primitive N (scheme_optimized_eval N fuel) procedure args env
       | LambdaProcedure formals body penv \<Rightarrow>
           andthen (make_call_frame penv formals args) (\<lambda>env'.
           scheme_optimized_eval N fuel body env')
       | MuProcedure formals body \<Rightarrow>
           andthen (make_call_frame env formals args) (\<lambda>env'.
           scheme_optimized_eval N fuel body env')
       | _ \<Rightarrow> raise (SchemeError ''Cannot call''))" for procedure args env
    by (simp add: scheme_apply_def split: val.splits)
  show ?case
    by (intro ext) (simp only: scheme_eval.simps scheme_optimized_eval.simps Suc ap)
qed

text \<open>
  C10. For every table of primitives, expression, environment and store, and every amount
  of fuel, the recursive evaluator and the trampolined evaluator give the same outcome: the
  same value or the same error, with the same store, or both have not returned.
\<close>

theorem evaluators_agree:
  "scheme_eval N fuel expr env s = scheme_optimized_eval N fuel expr env s"
  by (simp add: evaluators_same_function)

section \<open>A cond form without a matching clause\<close>

lemma vlist_simps [simp]: "vlist [] = VNil" "vlist (x # xs) = VPair x (vlist xs)"
  by (simp_all add: vlist_def)

lemma scheme_listp_vlist [simp]: "scheme_listp (vlist xs)"
  by (induction xs) auto

lemma py_len_vlist [simp]: "py_len (vlist xs) = Inr (length xs)"
proof (induction xs)
  case Nil
  show ?case by simp
next
  case (Cons x xs)
  then show ?case by (cases xs) (auto simp: attempt_def)
qed

lemma scheme_listp_is_vlist: "scheme_listp v \<Longrightarrow> \<exists>xs. v = vlist xs"
proof (induction v rule: scheme_listp.induct)
  case 1
  have "VNil = vlist []" by simp
  then show ?case by blast
next
  case (2 a b)
  then obtain xs where "b = vlist xs" by auto
  then have "VPair a b = vlist (a # xs)" by simp
  then show ?case by blast
qed auto

lemma check_form_clause:
  assumes "scheme_listp body"
  shows "check_form (VPair test body) (Suc 0) None = Inr ()"
proof -
  from assms obtain xs where "body = vlist xs" using scheme_listp_is_vlist by blast
  then have "VPair test body = vlist (test # xs)" by simp
  then show ?thesis unfolding check_form_def
    by (simp only: scheme_listp_vlist py_len_vlist) (simp add: attempt_def)
qed

lemma cond_loop_no_clause:
  "no_clause_holds ev clauses env s s' \<Longrightarrow>
     cond_loop ev num_clauses i (vlist clauses) env s = Some (Inr PyNone, s')"
proof (induction clauses arbitrary: i s)
  case Nil
  then show ?case by (simp add: ret_def)
next
  case (Cons c clauses)
  from Cons.prems obtain test body where c: "c = VPair test body"
    by (cases c) auto
  from Cons.prems c have t: "test \<noteq> VSym ''else''" and b: "scheme_listp body"
    and rest: "(case ev test env s of
         Some (Inr v, s1) \<Rightarrow> scheme_false v \<and> no_clause_holds ev clauses env s1 s'
       | _ \<Rightarrow> False)"
    by simp_all
  from rest obtain r1 s1 where e0: "ev test env s = Some (r1, s1)"
    by (cases "ev test env s") auto
  with rest obtain v where r1: "r1 = Inr v"
    by (cases r1) auto
  from rest e0 r1 have e: "ev test env s = Some (Inr v, s1)" and sf: "scheme_false v"
    and r: "no_clause_holds ev clauses env s1 s'"
    by simp_all
  from sf have f: "py_truthy v = Inr False" by (simp add: scheme_false_def)
  from Cons.IH [OF r] have IH: "cond_loop ev num_clauses (Suc i) (vlist clauses) env s1
      = Some (Inr PyNone, s')" .
  show ?case
    using t e f IH
    by (simp add: c check_form_clause [OF b] andthen_def lift_def)
qed

text \<open>
  C4, as the code has it. When no clause of a \<^verbatim>\<open>cond\<close> form has a true-ish test and none is
  an \<^verbatim>\<open>else\<close> clause, \<^verbatim>\<open>do_cond_form\<close> returns \<^verbatim>\<open>None\<close> without an error, and the evaluator,
  which takes that result as the next expression, raises \<^verbatim>\<open>SchemeError\<close>: cannot evaluate an
  undefined expression.
\<close>

theorem cond_no_match_raises:
  assumes "no_clause_holds (scheme_optimized_eval N (Suc fuel)) clauses env s s'"
  shows "do_cond_form (scheme_optimized_eval N (Suc fuel)) (vlist clauses) env s
           = Some (Inr PyNone, s')
       \<and> scheme_optimized_eval N (Suc (Suc fuel)) (VPair (VSym ''cond'') (vlist clauses)) env s
           = Some (Inl (SchemeError ''Cannot evaluate an undefined expression.''), s')"
proof -
  have d: "do_cond_form (scheme_optimized_eval N (Suc fuel)) (vlist clauses) env s
           = Some (Inr PyNone, s')"
    using cond_loop_no_clause [OF assms]
    by (simp add: do_cond_form_def andthen_def lift_def)
  have lf: "LOGIC_FORMS (VSym ''cond'') = Some do_cond_form"
    by (simp add: LOGIC_FORMS_def)
  have "scheme_optimized_eval N (Suc (Suc fuel)) (VPair (VSym ''cond'') (vlist clauses)) env s
      = andthen (do_cond_form (scheme_optimized_eval N (Suc fuel)) (vlist clauses) env)
          (\<lambda>expr'. scheme_optimized_eval N (Suc fuel) expr' env) s"
    by (subst scheme_optimized_eval.simps) (simp add: lf)
  also have "\<dots> = Some (Inl (SchemeError ''Cannot evaluate an undefined expression.''), s')"
    by (simp add: andthen_def d raise_def)
  finally show ?thesis using d by simp
qed

theorem cond_no_match_witness:
  "no_clause_holds (scheme_optimized_eval no_natives (Suc 0)) [vlist [VBool False, VNum 1]]
             (FrameRef 0 None) [Map.empty] [Map.empty]
   \<and> do_cond_form (scheme_optimized_eval no_natives (Suc 0)) (vlist [vlist [VBool False, VNum 1]])
        (FrameRef 0 None) [Map.empty] = Some (Inr PyNone, [Map.empty])
   \<and> scheme_optimized_eval no_natives (Suc (Suc 0))
        (VPair (VSym ''cond'') (vlist [vlist [VBool False, VNum 1]])) (FrameRef 0 None) [Map.empty]
      = Some (Inl (SchemeError ''Cannot evaluate an undefined expression.''), [Map.empty])"
proof -
  have h: "no_clause_holds (scheme_optimized_eval no_natives (Suc 0)) [vlist [VBool False, VNum 1]]
             (FrameRef 0 None) [Map.empty] [Map.empty]"
    by (simp add: ret_def scheme_false_def)
  from cond_no_match_raises [OF h] h show ?thesis by blast
qed

text \<open>
  The form \<^verbatim>\<open>(cond (#f 1))\<close> has no clause whose test is true and no \<^verbatim>\<open>else\<close>; evaluating it
  is an error.
\<close>

theorem cond_no_match_counterexample:
  "scheme_optimized_eval no_natives 2
     (VPair (VSym ''cond'') (VPair (VPair (VBool False) (VPair (VNum 1) VNil)) VNil))
     (FrameRef 0 None) [Map.empty]
   = Some (Inl (SchemeError ''Cannot evaluate an undefined expression.''), [Map.empty])"
  by (simp add: eval_nat_numeral LOGIC_FORMS_def do_cond_form_def andthen_def lift_def ret_def
      raise_def check_form_def attempt_def)

section \<open>Arity of a call\<close>

declare bind_formals.simps [simp del]

lemma bind_formals_vlist:
  assumes "dict_of frame < length s"
  shows "bind_formals frame (vlist formals) (vlist args) s =
     Some (if length args < length formals then Inl (AttributeError ''first'') else Inr (),
           s[dict_of frame := fold (\<lambda>(target, value) m. m(target \<mapsto> value)) (zip formals args)
               (s ! dict_of frame)])"
  using assms
proof (induction formals arbitrary: args s)
  case Nil
  then show ?case by (subst bind_formals.simps) (simp add: ret_def)
next
  case (Cons f formals)
  have len: "py_len (VPair f (vlist formals)) = Inr (Suc (length formals))"
    using py_len_vlist [of "f # formals"] by simp
  show ?case
  proof (cases args)
    case Nil
    have "bind_formals frame (VPair f (vlist formals)) VNil s
            = Some (Inl (AttributeError ''first''), s)"
      by (subst bind_formals.simps) (simp add: len raise_def)
    then show ?thesis using Nil by simp
  next
    case (Cons a args')
    let ?g = "\<lambda>(target, value) m. m(target \<mapsto> value)"
    let ?s1 = "s[dict_of frame := (s ! dict_of frame)(f \<mapsto> a)]"
    have at: "dict_at s (dict_of frame) = s ! dict_of frame"
      using Cons.prems by (simp add: dict_at_def)
    have sb: "set_binding frame f a s = Some (Inr (), ?s1)"
      by (simp add: set_binding_def at)
    have l1: "dict_of frame < length ?s1" using Cons.prems by simp
    have step: "bind_formals frame (VPair f (vlist formals)) (VPair a (vlist args')) s
            = bind_formals frame (vlist formals) (vlist args') ?s1"
      by (subst bind_formals.simps) (simp add: len andthen_def sb)
    have IH: "bind_formals frame (vlist formals) (vlist args') ?s1 =
         Some (if length args' < length formals then Inl (AttributeError ''first'') else Inr (),
           ?s1[dict_of frame := fold ?g (zip formals args') (?s1 ! dict_of frame)])"
      by (rule Cons.IH [OF l1])
    have nth: "?s1 ! dict_of frame = (s ! dict_of frame)(f \<mapsto> a)"
      using Cons.prems by (rule nth_list_update_eq)
    have st: "?s1[dict_of frame := fold ?g (zip formals args') (?s1 ! dict_of frame)]
            = s[dict_of frame := fold ?g (zip (f # formals) (a # args')) (s ! dict_of frame)]"
      by (simp only: nth list_update_overwrite zip_Cons_Cons fold_simps case_prod_conv)
    have lt: "(length (a # args') < length (f # formals)) = (length args' < length formals)"
      by simp
    have "bind_formals frame (vlist (f # formals)) (vlist (a # args')) s =
         Some (if length (a # args') < length (f # formals)
               then Inl (AttributeError ''first'') else Inr (),
           s[dict_of frame := fold ?g (zip (f # formals) (a # args')) (s ! dict_of frame)])"
      by (simp only: vlist_simps step IH st lt)
    then show ?thesis unfolding Cons .
  qed
qed

lemma make_call_frame_vlist:
  "make_call_frame self (vlist formals) (vlist args) s =
     Some (if length args < length formals then Inl (AttributeError ''first'')
           else Inr (FrameRef (length s) (Some self)),
           s @ [call_bindings formals args])"
proof -
  have "bind_formals (FrameRef (length s) (Some self)) (vlist formals) (vlist args)
          (s @ [Map.empty]) =
        Some (if length args < length formals then Inl (AttributeError ''first'') else Inr (),
           s @ [call_bindings formals args])"
    by (subst bind_formals_vlist) (simp_all add: call_bindings_def)
  then show ?thesis
    by (simp add: make_call_frame_def new_Frame_def andthen_def ret_def)
qed

text \<open>
  C5, as the code has it. A lambda procedure, whose formal parameters are a proper list, is
  applied to a proper list of arguments. With fewer arguments than formals the call raises
  \<^verbatim>\<open>AttributeError\<close>, inside \<^verbatim>\<open>make_call_frame\<close>, at the read of \<^verbatim>\<open>.first\<close> of the exhausted
  argument list. With as many or more, nothing is raised for the arity: the body is evaluated
  in the new frame, whose bindings pair the formals with the leading arguments.
\<close>

theorem lambda_arity:
  "scheme_apply N ev (LambdaProcedure (vlist formals) body penv) (vlist args) env s =
     (if length args < length formals
      then Some (Inl (AttributeError ''first''), s @ [call_bindings formals args])
      else ev body (FrameRef (length s) (Some penv)) (s @ [call_bindings formals args]))"
  by (simp add: scheme_apply_def andthen_def make_call_frame_vlist)

text \<open>
  The call \<^verbatim>\<open>((lambda (x) x) 1 2)\<close> has two arguments for one formal parameter and returns 1.
\<close>

theorem lambda_arity_counterexample:
  "scheme_optimized_eval no_natives 3
     (VPair (VPair (VSym ''lambda'') (VPair (VPair (VSym ''x'') VNil) (VPair (VSym ''x'') VNil)))
        (VPair (VNum 1) (VPair (VNum 2) VNil)))
     (FrameRef 0 None) [Map.empty]
   = Some (Inr (VNum 1), [Map.empty, [VSym ''x'' \<mapsto> VNum 1]])"
  by (simp add: eval_nat_numeral LOGIC_FORMS_def andthen_def lift_def ret_def raise_def
      do_lambda_form_def check_form_def check_formals_def attempt_def make_call_frame_def
      new_Frame_def bind_formals.simps set_binding_def dict_at_def Frame_lookup_st_def)

section \<open>The let form\<close>

lemma andthen_ret [simp]: "andthen (ret x) f = f x"
  by (rule ext) (simp add: andthen_def ret_def)

lemma andthen_lift_Inr [simp]: "andthen (lift (Inr x)) f = f x"
  by (rule ext) (simp add: andthen_def lift_def)

lemma andthen_assoc: "andthen (andthen m f) g = andthen m (\<lambda>x. andthen (f x) g)"
  by (rule ext) (simp add: andthen_def split: option.splits sum.splits prod.splits)

lemma andthen_cong_res:
  assumes "\<And>v s'. m s = Some (Inr v, s') \<Longrightarrow> f v s' = g v s'"
  shows "andthen m f s = andthen m g s"
  using assms by (simp add: andthen_def split: option.splits sum.splits prod.splits)

lemma eval_each_length:
  "eval_each ev es env s = Some (Inr vs, s') \<Longrightarrow> length vs = length es"
proof (induction es arbitrary: vs s)
  case Nil
  then show ?case by (simp add: ret_def)
next
  case (Cons e es)
  from Cons.prems obtain v s1 vs1 where
    "ev e env s = Some (Inr v, s1)" and r: "eval_each ev es env s1 = Some (Inr vs1, s')"
    and "vs = v # vs1"
    by (auto simp: andthen_def ret_def split: option.splits sum.splits prod.splits)
  with Cons.IH [OF r] show ?case by simp
qed

lemma py_getitem_vlist: "i < length xs \<Longrightarrow> py_getitem (vlist xs) i = Inr (xs ! i)"
proof (induction xs arbitrary: i)
  case Nil
  then show ?case by simp
next
  case (Cons x xs)
  show ?case
  proof (cases i)
    case 0
    then show ?thesis by simp
  next
    case (Suc k)
    with Cons.prems have k: "k < length xs" by simp
    then obtain y ys where xs: "xs = y # ys" by (cases xs) auto
    from Cons.IH [OF k] show ?thesis using Suc xs by simp
  qed
qed

lemma eval_indices_vlist:
  assumes "\<forall>i \<in> set idx. i < length xs"
  shows "eval_indices ev (vlist xs) env idx
           = andthen (eval_each ev (map (nth xs) idx) env) (\<lambda>_. ret ())"
  using assms
proof (induction idx)
  case Nil
  show ?case by simp
next
  case (Cons i idx)
  then have i: "i < length xs" and rest: "\<forall>i \<in> set idx. i < length xs" by simp_all
  show ?case
    by (simp add: py_getitem_vlist [OF i] Cons.IH [OF rest] andthen_assoc)
qed

lemma eval_indices_butlast:
  "eval_indices ev (vlist body) env [0..<length body - 1]
     = andthen (eval_each ev (butlast body) env) (\<lambda>_. ret ())"
proof -
  have "butlast body = take (length body - 1) (map (nth body) [0..<length body])"
    by (simp only: map_nth butlast_conv_take)
  also have "\<dots> = map (nth body) (take (length body - 1) [0..<length body])"
    by (rule take_map)
  also have "take (length body - 1) [0..<length body] = [0..<length body - 1]"
    by simp
  finally have "map (nth body) [0..<length body - 1] = butlast body" by simp
  moreover have "\<forall>i \<in> set [0..<length body - 1]. i < length body" by auto
  ultimately show ?thesis using eval_indices_vlist by metis
qed


lemma push_all_simps [simp]:
  "push_all [] acc = acc" "push_all (x # xs) acc = push_all xs (VPair x acc)"
  by (simp_all add: push_all_def)

lemma push_all_rev: "push_all xs (vlist ys) = vlist (rev xs @ ys)"
proof (induction xs arbitrary: ys)
  case Nil
  show ?case by simp
next
  case (Cons x xs)
  have "push_all (x # xs) (vlist ys) = push_all xs (vlist (x # ys))" by simp
  also have "\<dots> = vlist (rev xs @ x # ys)" by (rule Cons.IH)
  finally show ?case by simp
qed

lemma let_bindings_vlist:
  "let_bindings ev (vlist (map let_binding bs)) names acc env s
     = andthen (eval_each ev (map snd bs) env)
         (\<lambda>vs. ret (push_all (map fst bs) names, push_all vs acc)) s"
proof (induction bs arbitrary: names acc s)
  case Nil
  show ?case by simp
next
  case (Cons b bs)
  obtain name e where b: "b = (name, e)" by (cases b)
  have "let_bindings ev (vlist (map let_binding (b # bs))) names acc env s
      = andthen (ev e env) (\<lambda>v.
          let_bindings ev (vlist (map let_binding bs)) (VPair name names) (VPair v acc) env) s"
    by (simp add: b let_binding_def)
  also have "\<dots> = andthen (ev e env) (\<lambda>v.
          andthen (eval_each ev (map snd bs) env)
            (\<lambda>vs. ret (push_all (map fst bs) (VPair name names), push_all vs (VPair v acc)))) s"
    by (rule andthen_cong_res) (rule Cons.IH)
  also have "\<dots> = andthen (eval_each ev (map snd (b # bs)) env)
         (\<lambda>vs. ret (push_all (map fst (b # bs)) names, push_all vs acc)) s"
    by (simp add: b andthen_assoc)
  finally show ?case .
qed

lemma foldr_update_map_of:
  "foldr (\<lambda>(k, v) m. m(k \<mapsto> v)) xs Map.empty = map_of xs"
  by (induction xs) auto

lemma call_bindings_rev:
  assumes "length ns = length vs"
  shows "call_bindings (rev ns) (rev vs) = map_of (zip ns vs)"
proof -
  from assms have "zip (rev ns) (rev vs) = rev (zip ns vs)" by (simp add: zip_rev)
  then show ?thesis
    by (simp add: call_bindings_def foldr_conv_fold [symmetric] foldr_update_map_of)
qed


lemma make_call_frame_let:
  assumes "length ns = length vs"
  shows "make_call_frame env (push_all ns VNil) (push_all vs VNil)
           = new_frame_with env (map_of (zip ns vs))"
proof (rule ext)
  fix s
  have n: "push_all ns VNil = vlist (rev ns)" and v: "push_all vs VNil = vlist (rev vs)"
    using push_all_rev [of _ "[]"] by simp_all
  show "make_call_frame env (push_all ns VNil) (push_all vs VNil) s
           = new_frame_with env (map_of (zip ns vs)) s"
    using assms
    by (simp add: n v make_call_frame_vlist call_bindings_rev new_frame_with_def)
qed

lemma let_body:
  assumes "body \<noteq> []"
  shows "andthen (eval_indices ev (vlist body) new_env [0..<length body - Suc 0]) (\<lambda>_.
         andthen (lift (py_getitem (vlist body) (length body - Suc 0))) (\<lambda>e.
         ret (e, new_env)))
       = andthen (eval_each ev (butlast body) new_env) (\<lambda>_. ret (last body, new_env))"
proof -
  from assms have "length body - Suc 0 < length body" by (cases body) auto
  then have g: "py_getitem (vlist body) (length body - Suc 0) = Inr (last body)"
    using assms by (simp add: py_getitem_vlist last_conv_nth)
  have i: "eval_indices ev (vlist body) new_env [0..<length body - Suc 0]
     = andthen (eval_each ev (butlast body) new_env) (\<lambda>_. ret ())"
    using eval_indices_butlast [of ev body new_env] by simp
  show ?thesis
    by (simp only: i g andthen_assoc andthen_lift_Inr andthen_ret)
qed

lemma let_form:
  assumes "body \<noteq> []"
  shows "do_let_form ev (VPair (vlist (map let_binding bs)) (vlist body)) env
           = let_spec ev bs body env"
proof (rule ext)
  fix s
  let ?B = "vlist (map let_binding bs)"
  have vl: "VPair ?B (vlist body) = vlist (?B # body)" by simp
  from assms have cf: "check_form (VPair ?B (vlist body)) 2 None = Inr ()"
    unfolding check_form_def vl
    by (simp only: scheme_listp_vlist py_len_vlist) (cases body, auto simp: attempt_def)
  have lb: "let_bindings ev ?B VNil VNil env
      = andthen (eval_each ev (map snd bs) env)
          (\<lambda>vs. ret (push_all (map fst bs) VNil, push_all vs VNil))"
    by (rule ext) (rule let_bindings_vlist)
  have "do_let_form ev (VPair ?B (vlist body)) env s
      = andthen (eval_each ev (map snd bs) env) (\<lambda>vs.
        andthen (make_call_frame env (push_all (map fst bs) VNil) (push_all vs VNil)) (\<lambda>new_env.
        andthen (eval_each ev (butlast body) new_env) (\<lambda>_. ret (last body, new_env)))) s"
    by (simp add: do_let_form_def cf lb andthen_assoc let_body [OF assms])
  also have "\<dots> = andthen (eval_each ev (map snd bs) env) (\<lambda>vs.
        andthen (new_frame_with env (map_of (zip (map fst bs) vs))) (\<lambda>new_env.
        andthen (eval_each ev (butlast body) new_env) (\<lambda>_. ret (last body, new_env)))) s"
  proof (rule andthen_cong_res)
    fix vs s'
    assume "eval_each ev (map snd bs) env s = Some (Inr vs, s')"
    then have "length (map fst bs) = length vs" using eval_each_length by fastforce
    then show "andthen (make_call_frame env (push_all (map fst bs) VNil) (push_all vs VNil))
          (\<lambda>new_env. andthen (eval_each ev (butlast body) new_env)
             (\<lambda>_. ret (last body, new_env))) s'
       = andthen (new_frame_with env (map_of (zip (map fst bs) vs)))
          (\<lambda>new_env. andthen (eval_each ev (butlast body) new_env)
             (\<lambda>_. ret (last body, new_env))) s'"
      by (simp only: make_call_frame_let)
  qed
  finally show "do_let_form ev (VPair ?B (vlist body)) env s = let_spec ev bs body env s"
    by (simp add: let_spec_def)
qed


text \<open>
  C7. For a let form with bindings \<^verbatim>\<open>(name valueExpr)\<close> and a body that is not empty,
  \<^verbatim>\<open>do_let_form\<close> evaluates every value expression in the outer environment, makes one new
  frame that binds all the names, evaluates all but the last body expression in that frame,
  and returns the last one with the frame; the evaluator then evaluates it there.
\<close>

theorem let_evaluation:
  assumes "body \<noteq> []"
  shows "do_let_form ev (VPair (vlist (map let_binding bs)) (vlist body)) env
           = let_spec ev bs body env
       \<and> scheme_optimized_eval N (Suc fuel)
           (VPair (VSym ''let'') (VPair (vlist (map let_binding bs)) (vlist body))) env
           = let_value_spec (scheme_optimized_eval N fuel) bs body env"
proof -
  let ?rest = "VPair (vlist (map let_binding bs)) (vlist body)"
  have l: "scheme_listp (VPair (VSym ''let'') ?rest)" by simp
  have lf: "LOGIC_FORMS (VSym ''let'') = None" by (simp add: LOGIC_FORMS_def)
  have "scheme_optimized_eval N (Suc fuel) (VPair (VSym ''let'') ?rest) env
      = andthen (do_let_form (scheme_optimized_eval N fuel) ?rest env)
          (\<lambda>(expr', env'). scheme_optimized_eval N fuel expr' env')"
    by (subst scheme_optimized_eval.simps) (simp add: lf)
  also have "\<dots> = let_value_spec (scheme_optimized_eval N fuel) bs body env"
    by (simp add: let_form [OF assms] let_spec_def let_value_spec_def andthen_assoc)
  finally show ?thesis using let_form [OF assms] by simp
qed

theorem let_evaluation_witness:
  "[VSym ''y''] \<noteq> []
   \<and> scheme_optimized_eval no_natives (Suc (Suc 0))
       (VPair (VSym ''let'')
          (VPair (vlist (map let_binding [(VSym ''x'', VNum 1), (VSym ''y'', VSym ''x'')]))
                 (vlist [VSym ''y''])))
       (FrameRef 0 None) [[VSym ''x'' \<mapsto> VNum 10]]
     = Some (Inr (VNum 10),
         [[VSym ''x'' \<mapsto> VNum 10],
          map_of [(VSym ''x'', VNum 1), (VSym ''y'', VNum 10)]])"
proof -
  have h: "[VSym ''y''] \<noteq> []" by simp
  have "let_value_spec (scheme_optimized_eval no_natives (Suc 0))
          [(VSym ''x'', VNum 1), (VSym ''y'', VSym ''x'')] [VSym ''y''] (FrameRef 0 None)
          [[VSym ''x'' \<mapsto> VNum 10]]
     = Some (Inr (VNum 10),
         [[VSym ''x'' \<mapsto> VNum 10],
          map_of [(VSym ''x'', VNum 1), (VSym ''y'', VNum 10)]])"
    by (simp add: let_value_spec_def andthen_def ret_def new_frame_with_def
        Frame_lookup_st_def dict_at_def)
  with let_evaluation [OF h, where bs = "[(VSym ''x'', VNum 1), (VSym ''y'', VSym ''x'')]"
      and N = no_natives and fuel = "Suc 0" and env = "FrameRef 0 None"] h
  show ?thesis by simp
qed

section \<open>Unification is symmetric\<close>

lemma lookup_non_symbol: "\<forall>s. t \<noteq> Sym s \<Longrightarrow> lookup t env = Some t"
  by (subst lookup.simps) (cases t; simp)

lemma lookup_unbound: "isl (Frame_lookup env s) \<Longrightarrow> lookup (Sym s) env = Some (Sym s)"
  by (subst lookup.simps) (auto split: sum.splits)

lemma lookup_bound: "Frame_lookup env s = Inr w \<Longrightarrow> lookup (Sym s) env = lookup w env"
  by (subst lookup.simps) simp

lemma lookup_idem: "lookup t env = Some r \<Longrightarrow> lookup r env = Some r"
proof (cases "\<exists>s. r = Sym s")
  case True
  assume "lookup t env = Some r"
  with True show ?thesis using lookup_Sym_unbound lookup_unbound by blast
next
  case False
  then show ?thesis by (simp add: lookup_non_symbol)
qed

lemma Frame_lookup_define:
  assumes "isl (Frame_lookup env x)"
  shows "Frame_lookup (Frame_define env (Sym x) v) s
           = (if s = x then Inr v else Frame_lookup env s)"
  using assms by (cases env) (auto split: option.splits)

lemma lookup_define_fwd:
  "lookup t env = Some r \<Longrightarrow> isl (Frame_lookup env x) \<Longrightarrow> lookup v env = Some v \<Longrightarrow>
   v \<noteq> Sym x \<Longrightarrow>
   lookup t (Frame_define env (Sym x) v) = Some (if r = Sym x then v else r)"
proof (induct rule: lookup_induct)
  case (step lookup' t env r)
  let ?env' = "Frame_define env (Sym x) v"
  note fl = Frame_lookup_define [OF step.prems(1), of v]
  have v': "lookup v ?env' = Some v"
  proof (cases "\<exists>y. v = Sym y")
    case True
    then obtain y where y: "v = Sym y" by blast
    with step.prems(2) have "isl (Frame_lookup env y)" using lookup_Sym_unbound by blast
    moreover from y step.prems(3) have "y \<noteq> x" by simp
    ultimately have "isl (Frame_lookup ?env' y)" by (simp add: fl)
    then show ?thesis using y lookup_unbound by simp
  next
    case False
    then show ?thesis by (simp add: lookup_non_symbol)
  qed
  show ?case
  proof (cases "\<exists>s. t = Sym s")
    case False
    with step.hyps(2) have "r = t" by (cases t) auto
    with False show ?thesis by (auto simp: lookup_non_symbol)
  next
    case True
    then obtain s where t: "t = Sym s" by blast
    show ?thesis
    proof (cases "Frame_lookup env s")
      case (Inr w)
      with step.hyps(2) t have "lookup' w env = Some r" by simp
      from step.hyps(1) [OF this step.prems] have
        IH: "lookup w ?env' = Some (if r = Sym x then v else r)" .
      from Inr step.prems(1) have "s \<noteq> x" by auto
      with Inr have "Frame_lookup ?env' s = Inr w" by (simp add: fl)
      then show ?thesis using IH t lookup_bound by simp
    next
      case (Inl err)
      with step.hyps(2) t have r: "r = Sym s" by simp
      show ?thesis
      proof (cases "s = x")
        case True
        then have "Frame_lookup ?env' s = Inr v" by (simp add: fl)
        then have "lookup (Sym s) ?env' = Some v" using lookup_bound v' by simp
        with True r t show ?thesis by simp
      next
        case False
        with Inl have "isl (Frame_lookup ?env' s)" by (simp add: fl)
        then show ?thesis using False r t lookup_unbound by simp
      qed
    qed
  qed
qed


lemma lookup_define_bwd:
  "lookup t env' = Some r' \<Longrightarrow> env' = Frame_define env (Sym x) v \<Longrightarrow>
   isl (Frame_lookup env x) \<Longrightarrow> lookup v env = Some v \<Longrightarrow> v \<noteq> Sym x \<Longrightarrow>
   \<exists>r. lookup t env = Some r \<and> r' = (if r = Sym x then v else r)"
proof (induct rule: lookup_induct)
  case (step lookup' t env' r')
  note fl = Frame_lookup_define [OF step.prems(2), of v]
  show ?case
  proof (cases "\<exists>s. t = Sym s")
    case False
    with step.hyps(2) have "r' = t" by (cases t) auto
    with False show ?thesis by (auto simp: lookup_non_symbol)
  next
    case True
    then obtain s where t: "t = Sym s" by blast
    show ?thesis
    proof (cases "Frame_lookup env' s")
      case (Inr w)
      with step.hyps(2) t have "lookup' w env' = Some r'" by simp
      from step.hyps(1) [OF this step.prems] obtain r where
        IH: "lookup w env = Some r" "r' = (if r = Sym x then v else r)" by blast
      show ?thesis
      proof (cases "s = x")
        case True
        with Inr step.prems(1) have "w = v" by (simp add: fl)
        with IH step.prems(3,4) have "r' = v" by simp
        moreover have "lookup (Sym x) env = Some (Sym x)"
          using step.prems(2) by (rule lookup_unbound)
        ultimately show ?thesis using True t by simp
      next
        case False
        with Inr step.prems(1) have "Frame_lookup env s = Inr w" by (simp add: fl)
        then have "lookup (Sym s) env = lookup w env" by (rule lookup_bound)
        with IH t show ?thesis by simp
      qed
    next
      case (Inl err)
      with step.hyps(2) t have r: "r' = Sym s" by simp
      from Inl step.prems(1) have sx: "s \<noteq> x" and "isl (Frame_lookup env s)"
        by (auto simp: fl split: if_splits)
      then have "lookup (Sym s) env = Some (Sym s)" using lookup_unbound by simp
      with r t sx show ?thesis by simp
    qed
  qed
qed

lemma lookup_define:
  assumes "isl (Frame_lookup env x)" "lookup v env = Some v" "v \<noteq> Sym x"
  shows "lookup t (Frame_define env (Sym x) v)
           = map_option (\<lambda>r. if r = Sym x then v else r) (lookup t env)"
proof (cases "lookup t env")
  case (Some r)
  from lookup_define_fwd [OF Some assms] Some show ?thesis by simp
next
  case None
  have "lookup t (Frame_define env (Sym x) v) = None"
  proof (rule ccontr)
    assume "lookup t (Frame_define env (Sym x) v) \<noteq> None"
    then obtain r' where "lookup t (Frame_define env (Sym x) v) = Some r'" by blast
    from lookup_define_bwd [OF this refl assms] None show False by simp
  qed
  with None show ?thesis by simp
qed

lemma sim_refl: "sim env env"
  by (auto simp: sim_def)

lemma sim_merge:
  assumes s: "sim env1 env2"
    and e: "lookup e env1 = Some e1" "lookup e env2 = Some e2"
    and f: "lookup f env1 = Some f1" "lookup f env2 = Some f2"
    and l1: "\<And>t. lookup t env1' = map_option (\<lambda>r. if r = e1 \<or> r = f1 then v1 else r) (lookup t env1)"
    and l2: "\<And>t. lookup t env2' = map_option (\<lambda>r. if r = e2 \<or> r = f2 then v2 else r) (lookup t env2)"
    and v1: "v1 = e1 \<or> v1 = f1" and v2: "v2 = e2 \<or> v2 = f2"
    and vv: "isvar v1 = isvar v2" "\<not> isvar v1 \<Longrightarrow> v1 = v2"
  shows "sim env1' env2'"
proof -
  from s have A: "\<And>t. (lookup t env1 = None) = (lookup t env2 = None)"
    and B: "\<And>t r1 r2. lookup t env1 = Some r1 \<Longrightarrow> lookup t env2 = Some r2 \<Longrightarrow>
        (isvar r1 = isvar r2) \<and> (\<not> isvar r1 \<longrightarrow> r1 = r2)"
    and C: "\<And>t u r1 r2 q1 q2.
        lookup t env1 = Some r1 \<Longrightarrow> lookup t env2 = Some r2 \<Longrightarrow>
        lookup u env1 = Some q1 \<Longrightarrow> lookup u env2 = Some q2 \<Longrightarrow>
        (r1 = q1) = (r2 = q2)"
    unfolding sim_def by blast+
  have in_class: "(r1 = e1 \<or> r1 = f1) = (r2 = e2 \<or> r2 = f2)"
    if "lookup t env1 = Some r1" "lookup t env2 = Some r2" for t r1 r2
    using C [OF that e] C [OF that f] by simp
  show ?thesis
    unfolding sim_def
  proof (intro conjI allI impI)
    fix t
    show "(lookup t env1' = None) = (lookup t env2' = None)"
      by (simp add: l1 l2 A)
  next
    fix t r1' r2'
    assume a: "lookup t env1' = Some r1'" "lookup t env2' = Some r2'"
    then obtain r1 r2 where r: "lookup t env1 = Some r1" "lookup t env2 = Some r2"
      and r1': "r1' = (if r1 = e1 \<or> r1 = f1 then v1 else r1)"
      and r2': "r2' = (if r2 = e2 \<or> r2 = f2 then v2 else r2)"
      by (auto simp: l1 l2)
    show "isvar r1' = isvar r2'" "\<not> isvar r1' \<Longrightarrow> r1' = r2'"
      using in_class [OF r] B [OF r] vv r1' r2' by auto
  next
    fix t u r1' r2' q1' q2'
    assume a: "lookup t env1' = Some r1'" "lookup t env2' = Some r2'"
      "lookup u env1' = Some q1'" "lookup u env2' = Some q2'"
    then obtain r1 r2 q1 q2 where r: "lookup t env1 = Some r1" "lookup t env2 = Some r2"
      and q: "lookup u env1 = Some q1" "lookup u env2 = Some q2"
      and r1': "r1' = (if r1 = e1 \<or> r1 = f1 then v1 else r1)"
      and r2': "r2' = (if r2 = e2 \<or> r2 = f2 then v2 else r2)"
      and q1': "q1' = (if q1 = e1 \<or> q1 = f1 then v1 else q1)"
      and q2': "q2' = (if q2 = e2 \<or> q2 = f2 then v2 else q2)"
      by (auto simp: l1 l2)
    show "(r1' = q1') = (r2' = q2')"
      using in_class [OF r] in_class [OF q] C [OF r q] v1 v2 r1' r2' q1' q2' by auto
  qed
qed


lemma lookup_define_var:
  assumes "lookup t0 env = Some x" "isvar x" "lookup u0 env = Some v" "x \<noteq> v"
  shows "lookup t (Frame_define env x v)
           = map_option (\<lambda>r. if r = x \<or> r = v then v else r) (lookup t env)"
proof -
  from assms(2) obtain s where x: "x = Sym s" using isvar_Sym by blast
  with assms(1) have u: "isl (Frame_lookup env s)" using lookup_Sym_unbound by blast
  from assms(3) have i: "lookup v env = Some v" by (rule lookup_idem)
  from assms(4) x have n: "v \<noteq> Sym s" by simp
  have "(\<lambda>r. if r = Sym s then v else r) = (\<lambda>r. if r = Sym s \<or> r = v then v else r)"
    by auto
  with lookup_define [OF u i n, of t] show ?thesis unfolding x by simp
qed

lemma unify_unfold:
  assumes "lookup e env = Some e'" "lookup f env = Some f'"
  shows "unify e f env =
       (if e' = f' then Some (True, env)
        else if isvar e' then Some (True, Frame_define env e' f')
        else if isvar f' then Some (True, Frame_define env f' e')
        else if scheme_atomp e' \<or> scheme_atomp f' then Some (False, env)
        else
          Option.bind (unify (first e') (first f') env) (\<lambda>(ok, env1).
            if ok then unify (second e') (second f') env1 else Some (False, env1)))"
  by (subst unify.simps) (simp add: assms)


lemma unify_lockstep:
  "unify e f env1 = Some (ok, env1') \<Longrightarrow> sim env1 env2 \<Longrightarrow>
     \<exists>env2'. unify f e env2 = Some (ok, env2') \<and> (ok \<longrightarrow> sim env1' env2')"
proof (induct e f env1 "(ok, env1')" arbitrary: ok env1' env2 rule: unify_induct)
  case (step unify' e f env1)
  note body = step.hyps(2) and s = step.prems
  from body obtain e1 f1 where e1: "lookup e env1 = Some e1" and f1: "lookup f env1 = Some f1"
    by (auto simp: bind_eq_Some_conv)
  from s e1 f1 obtain e2 f2 where e2: "lookup e env2 = Some e2" and f2: "lookup f env2 = Some f2"
    unfolding sim_def by (metis option.exhaust)
  from s e1 e2 have Be: "isvar e1 = isvar e2" "\<not> isvar e1 \<Longrightarrow> e1 = e2"
    unfolding sim_def by blast+
  from s f1 f2 have Bf: "isvar f1 = isvar f2" "\<not> isvar f1 \<Longrightarrow> f1 = f2"
    unfolding sim_def by blast+
  from s e1 e2 f1 f2 have C: "(e1 = f1) = (e2 = f2)"
    unfolding sim_def by blast
  note u2 = unify_unfold [OF f2 e2]
  from body e1 f1 have body':
    "(if e1 = f1 then Some (True, env1)
      else if isvar e1 then Some (True, Frame_define env1 e1 f1)
      else if isvar f1 then Some (True, Frame_define env1 f1 e1)
      else if scheme_atomp e1 \<or> scheme_atomp f1 then Some (False, env1)
      else
        Option.bind (unify' (first e1) (first f1) env1) (\<lambda>(ok, env1a).
          if ok then unify' (second e1) (second f1) env1a else Some (False, env1a)))
     = Some (ok, env1')"
    by simp
  show ?case
  proof (cases "e1 = f1")
    case True
    with body' C have "ok" "env1' = env1" "e2 = f2" by simp_all
    with u2 s show ?thesis by simp
  next
    case neq: False
    with C have neq2: "f2 \<noteq> e2" by auto
    show ?thesis
    proof (cases "isvar e1")
      case ve: True
      with body' neq have r1: "ok" "env1' = Frame_define env1 e1 f1" by simp_all
      note l1 = lookup_define_var [OF e1 ve f1 neq]
      show ?thesis
      proof (cases "isvar f2")
        case True
        with u2 neq2 have r2: "unify f e env2 = Some (True, Frame_define env2 f2 e2)" by simp
        have l2: "lookup t (Frame_define env2 f2 e2)
             = map_option (\<lambda>r. if r = e2 \<or> r = f2 then e2 else r) (lookup t env2)" for t
          using lookup_define_var [OF f2 True e2 neq2, of t] by (simp add: disj_commute)
        from ve Be True Bf have vv: "isvar f1 = isvar e2" "\<not> isvar f1 \<Longrightarrow> f1 = e2" by simp_all
        have "sim (Frame_define env1 e1 f1) (Frame_define env2 f2 e2)"
          by (rule sim_merge [OF s e1 e2 f1 f2 l1 l2 _ _ vv]) simp_all
        with r1 r2 show ?thesis by simp
      next
        case False
        with Bf have ff: "f1 = f2" "\<not> isvar f1" by simp_all
        from ve Be have ve2: "isvar e2" by simp
        from u2 neq2 False ve2
        have r2: "unify f e env2 = Some (True, Frame_define env2 e2 f2)" by simp
        from neq2 have neq2': "e2 \<noteq> f2" by simp
        note l2 = lookup_define_var [OF e2 ve2 f2 neq2']
        from ff have vv: "isvar f1 = isvar f2" "\<not> isvar f1 \<Longrightarrow> f1 = f2" by simp_all
        have "sim (Frame_define env1 e1 f1) (Frame_define env2 e2 f2)"
          by (rule sim_merge [OF s e1 e2 f1 f2 l1 l2 _ _ vv]) simp_all
        with r1 r2 show ?thesis by simp
      qed
    next
      case nve: False
      with Be have ee: "e1 = e2" "\<not> isvar e2" by simp_all
      show ?thesis
      proof (cases "isvar f1")
        case vf: True
        with body' neq nve have r1: "ok" "env1' = Frame_define env1 f1 e1" by simp_all
        from vf Bf have vf2: "isvar f2" by simp
        from u2 neq2 vf2 have r2: "unify f e env2 = Some (True, Frame_define env2 f2 e2)" by simp
        from neq have neq': "f1 \<noteq> e1" by simp
        have l1: "lookup t (Frame_define env1 f1 e1)
             = map_option (\<lambda>r. if r = e1 \<or> r = f1 then e1 else r) (lookup t env1)" for t
          using lookup_define_var [OF f1 vf e1 neq', of t] by (simp add: disj_commute)
        have l2: "lookup t (Frame_define env2 f2 e2)
             = map_option (\<lambda>r. if r = e2 \<or> r = f2 then e2 else r) (lookup t env2)" for t
          using lookup_define_var [OF f2 vf2 e2 neq2, of t] by (simp add: disj_commute)
        from ee nve have vv: "isvar e1 = isvar e2" "\<not> isvar e1 \<Longrightarrow> e1 = e2" by simp_all
        have "sim (Frame_define env1 f1 e1) (Frame_define env2 f2 e2)"
          by (rule sim_merge [OF s e1 e2 f1 f2 l1 l2 _ _ vv]) simp_all
        with r1 r2 show ?thesis by simp
      next
        case nvf: False
        with Bf have ff: "f1 = f2" "\<not> isvar f2" by simp_all
        show ?thesis
        proof (cases "scheme_atomp e1 \<or> scheme_atomp f1")
          case True
          with body' neq nve nvf have "\<not> ok" by auto
          moreover from u2 neq2 ee ff True have "unify f e env2 = Some (False, env2)" by auto
          ultimately show ?thesis by simp
        next
          case False
          with body' neq nve nvf obtain ok1 env1a where
            c1: "unify' (first e1) (first f1) env1 = Some (ok1, env1a)" and
            c2: "(if ok1 then unify' (second e1) (second f1) env1a else Some (False, env1a))
                   = Some (ok, env1')"
            by (auto simp: bind_eq_Some_conv)
          from step.hyps(1) [OF c1 s] obtain env2a where
            d1: "unify (first f1) (first e1) env2 = Some (ok1, env2a)" and
            sa: "ok1 \<longrightarrow> sim env1a env2a" by blast
          from u2 neq2 ee ff False have u2':
            "unify f e env2 = Option.bind (unify (first f1) (first e1) env2) (\<lambda>(ok, env1).
               if ok then unify (second f1) (second e1) env1 else Some (False, env1))"
            by auto
          show ?thesis
          proof (cases ok1)
            case True
            with c2 have "unify' (second e1) (second f1) env1a = Some (ok, env1')" by simp
            from step.hyps(1) [OF this] sa True obtain env2' where
              "unify (second f1) (second e1) env2a = Some (ok, env2')"
              "ok \<longrightarrow> sim env1' env2'" by blast
            with u2' d1 True show ?thesis by simp
          next
            case False
            with c2 have "\<not> ok" by simp
            with u2' d1 False show ?thesis by simp
          qed
        qed
      qed
    qed
  qed
qed


text \<open>
  C6. For all terms \<open>a\<close> and \<open>b\<close> and every frame, \<^verbatim>\<open>unify(a, b, f)\<close> and \<^verbatim>\<open>unify(b, a, f')\<close>, with
  \<open>f'\<close> a frame of the same contents, have the same outcome: both return \<^verbatim>\<open>True\<close>, or both
  return \<^verbatim>\<open>False\<close>, or neither returns. The frames they leave may differ.
\<close>

theorem unify_symmetric:
  "map_option fst (unify a b env) = map_option fst (unify b a env)
   \<and> ((\<exists>env'. unify a b env = Some (True, env')) = (\<exists>env'. unify b a env = Some (True, env')))"
proof -
  have one: "\<exists>env2'. unify y x env = Some (ok, env2')"
    if "unify x y env = Some (ok, env1')" for x y ok env1'
    using unify_lockstep [OF that sim_refl] by blast
  have "map_option fst (unify a b env) = map_option fst (unify b a env)"
  proof (cases "unify a b env")
    case None
    have "unify b a env = None"
    proof (rule ccontr)
      assume "unify b a env \<noteq> None"
      then obtain ok env2' where "unify b a env = Some (ok, env2')" by auto
      from one [OF this] None show False by simp
    qed
    with None show ?thesis by simp
  next
    case (Some r)
    obtain ok env1' where "r = (ok, env1')" by (cases r)
    with Some one [of a b ok env1'] show ?thesis by auto
  qed
  moreover have "(\<exists>env'. unify a b env = Some (True, env'))
       = (\<exists>env'. unify b a env = Some (True, env'))"
    using one by blast
  ultimately show ?thesis by simp
qed

end
